theory Spec2Isabelle
  imports Complex_Main "HOL-Library.Sublist" "HOL-Library.Word"
begin

section \<open>toch: loading tabular data into ClickHouse\<close>

text \<open>
  The repository holds two revisions of the single program file: \<^verbatim>\<open>toch.go\<close> and a
  later one (with the \<^verbatim>\<open>-i\<close> option and a \<^verbatim>\<open>help\<close> function). Where the two differ, the
  functions below take the revision as their first argument.
\<close>

datatype revision = TochGo | Part000

text \<open>
  A run of the program ends in one of three ways: a returned error value (which \<^verbatim>\<open>main\<close>
  turns into \<^verbatim>\<open>log.Fatalln\<close>), or a run-time panic (a slice or an index out of range).
\<close>

datatype error = Err string | Panic string

subsection \<open>The package \<^verbatim>\<open>strings\<close>, on byte strings\<close>

text \<open>
  A Go string is a sequence of bytes, and so is a HOL \<^typ>\<open>string\<close>. The case mappings
  are those of Go on ASCII strings (the fast path of \<^verbatim>\<open>strings.ToLower\<close> and
  \<^verbatim>\<open>strings.ToUpper\<close>); on a string with a byte from 128 on, Go maps Unicode code points,
  which is outside this development: theorems about case-mapped input carry the hypothesis
  \<open>ascii\<close>.
\<close>

definition ascii :: "string \<Rightarrow> bool" where
  "ascii s = list_all (\<lambda>c. (of_char c :: nat) < 128) s"

definition lower_byte :: "char \<Rightarrow> char" where
  "lower_byte c =
     (let n = (of_char c :: nat) in if 65 \<le> n \<and> n \<le> 90 then char_of (n + 32) else c)"

definition upper_byte :: "char \<Rightarrow> char" where
  "upper_byte c =
     (let n = (of_char c :: nat) in if 97 \<le> n \<and> n \<le> 122 then char_of (n - 32) else c)"

definition ToLower :: "string \<Rightarrow> string" where
  "ToLower s = map lower_byte s"

definition ToUpper :: "string \<Rightarrow> string" where
  "ToUpper s = map upper_byte s"

text \<open>\<^verbatim>\<open>strings.Contains(s, substr)\<close>.\<close>

fun Contains :: "string \<Rightarrow> string \<Rightarrow> bool" where
  "Contains [] substr = (substr = [])"
| "Contains (c # cs) substr = (prefix substr (c # cs) \<or> Contains cs substr)"

text \<open>\<^verbatim>\<open>strings.IndexAny(s, chars)\<close>: the index of the first byte of \<open>s\<close> that is in
  \<open>chars\<close>, or \<open>-1\<close>.\<close>

fun IndexAny :: "string \<Rightarrow> string \<Rightarrow> int" where
  "IndexAny [] chars = - 1"
| "IndexAny (c # cs) chars =
     (if c \<in> set chars then 0
      else (let r = IndexAny cs chars in if r < 0 then - 1 else r + 1))"

text \<open>
  \<^verbatim>\<open>strings.Replace(s, old, new, n)\<close> replaces the first \<open>n\<close> non-overlapping occurrences
  of \<open>old\<close> (all of them when \<open>n < 0\<close>). An empty \<open>old\<close> matches before every byte and at
  the end.
\<close>

fun replace_upto :: "nat \<Rightarrow> string \<Rightarrow> string \<Rightarrow> string \<Rightarrow> string" where
  "replace_upto 0 s old new = s"
| "replace_upto (Suc k) [] old new = []"
| "replace_upto (Suc k) (c # cs) old new =
     (if prefix old (c # cs) then new @ replace_upto k (drop (length old) (c # cs)) old new
      else c # replace_upto (Suc k) cs old new)"

fun insert_upto :: "nat \<Rightarrow> string \<Rightarrow> string \<Rightarrow> string" where
  "insert_upto 0 s new = s"
| "insert_upto (Suc k) [] new = new"
| "insert_upto (Suc k) (c # cs) new = new @ c # insert_upto k cs new"

definition Replace :: "string \<Rightarrow> string \<Rightarrow> string \<Rightarrow> int \<Rightarrow> string" where
  "Replace s old new n =
     (if old = new \<or> n = 0 then s
      else if old = [] then
        insert_upto (if n < 0 \<or> int (length s) + 1 < n then length s + 1 else nat n) s new
      else replace_upto (if n < 0 then length s else nat n) s old new)"

definition ReplaceAll :: "string \<Rightarrow> string \<Rightarrow> string \<Rightarrow> string" where
  "ReplaceAll s old new = Replace s old new (- 1)"

text \<open>\<^verbatim>\<open>strings.Split(s, sep)\<close> for a separator of one byte (\<^verbatim>\<open>","\<close> and \<^verbatim>\<open>":"\<close> in the
  program): the pieces between the separators, at least one.\<close>

fun Split :: "string \<Rightarrow> char \<Rightarrow> string list" where
  "Split [] sep = [[]]"
| "Split (c # cs) sep =
     (if c = sep then [] # Split cs sep
      else (case Split cs sep of [] \<Rightarrow> [[c]] | w # ws \<Rightarrow> (c # w) # ws))"

text \<open>The slice expression \<^verbatim>\<open>s[lo:hi]\<close>; \<open>None\<close> is the panic for bounds out of range.\<close>

definition slice :: "string \<Rightarrow> int \<Rightarrow> int \<Rightarrow> string option" where
  "slice s lo hi =
     (if 0 \<le> lo \<and> lo \<le> hi \<and> hi \<le> int (length s)
      then Some (take (nat (hi - lo)) (drop (nat lo) s)) else None)"

subsection \<open>\<^verbatim>\<open>toCamel\<close>\<close>

definition chars :: string where
  "chars = ''._''"

text \<open>
  The loop of \<^verbatim>\<open>toCamel\<close>: while \<open>snake\<close> has a byte of \<open>chars\<close>, at index \<open>ind\<close>, the
  first occurrence of \<^verbatim>\<open>snake[ind:ind+2]\<close> is replaced by the upper-cased
  \<^verbatim>\<open>snake[ind+1:ind+2]\<close>. Both slices panic when \<open>ind + 2\<close> is beyond the end. Every round
  makes the string one byte shorter, which is the termination argument.
\<close>

function toCamel_loop :: "string \<Rightarrow> error + string" where
  "toCamel_loop snake =
     (let ind = IndexAny snake chars in
      if ind \<ge> 0 then
        (case slice snake ind (ind + 2) of
           None \<Rightarrow> Inl (Panic ''slice bounds out of range'')
         | Some old \<Rightarrow>
             (case slice snake (ind + 1) (ind + 2) of
                None \<Rightarrow> Inl (Panic ''slice bounds out of range'')
              | Some nxt \<Rightarrow> toCamel_loop (Replace snake old (ToUpper nxt) 1)))
      else Inr snake)"
  by pat_completeness auto
termination
proof (relation "measure length", goal_cases)
  case 1
  show ?case by simp
next
  case (2 snake ind old nxt)
  have len: "\<And>s lo hi t. slice s lo hi = Some t \<Longrightarrow> length t = nat (hi - lo)"
    by (auto simp: slice_def split: if_splits)
  have dec: "\<exists>ys zs. snake = ys @ old @ zs"
  proof -
    from 2(3) have t: "old = take (nat (ind + 2 - ind)) (drop (nat ind) snake)"
      by (auto simp: slice_def split: if_splits)
    have "snake = take (nat ind) snake @ drop (nat ind) snake" by simp
    also have "drop (nat ind) snake = old @ drop (nat (ind + 2 - ind)) (drop (nat ind) snake)"
      unfolding t by (rule append_take_drop_id [symmetric])
    finally show ?thesis by blast
  qed
  have one: "\<And>s ys zs new. old \<noteq> [] \<Longrightarrow> s = ys @ old @ zs \<Longrightarrow>
      length (replace_upto (Suc 0) s old new) + length old = length s + length new"
  proof -
    fix s :: string and ys zs new :: string
    assume ne: "old \<noteq> []"
    show "s = ys @ old @ zs \<Longrightarrow>
      length (replace_upto (Suc 0) s old new) + length old = length s + length new"
    proof (induction s arbitrary: ys)
      case Nil
      then show ?case using ne by simp
    next
      case (Cons c cs)
      show ?case
      proof (cases "prefix old (c # cs)")
        case True
        then have "length old \<le> length (c # cs)" by (rule prefix_length_le)
        with True show ?thesis by simp
      next
        case False
        with Cons.prems obtain ys' where "ys = c # ys'"
          by (cases ys) auto
        with Cons.prems have "cs = ys' @ old @ zs" by simp
        from Cons.IH [OF this] False show ?thesis by simp
      qed
    qed
  qed
  obtain ys zs where d: "snake = ys @ old @ zs"
    using dec by blast
  have l: "length old = 2" using len [OF 2(3)] by simp
  have ln: "length nxt = 1" using len [OF 2(4)] by simp
  have lu: "length (ToUpper nxt) = 1" using ln by (simp add: ToUpper_def)
  have ne: "old \<noteq> []" using l by auto
  have "length old \<noteq> length (ToUpper nxt)" using l lu by simp
  then have "old \<noteq> ToUpper nxt" by auto
  then have "Replace snake old (ToUpper nxt) 1 = replace_upto (Suc 0) snake old (ToUpper nxt)"
    using ne by (simp add: Replace_def)
  moreover have "length (replace_upto (Suc 0) snake old (ToUpper nxt)) + length old
      = length snake + length (ToUpper nxt)"
    using ne d by (rule one)
  ultimately show ?case using l lu by simp
qed

declare toCamel_loop.simps [simp del]

text \<open>
  \<^verbatim>\<open>toCamel\<close> replaces spaces by underscores, lower-cases, and runs the loop. The later
  revision has one more statement, meant to lower-case the first character; its slice
  \<^verbatim>\<open>snake[0:0]\<close> is the empty string.
\<close>

definition toCamel :: "revision \<Rightarrow> string \<Rightarrow> error + string" where
  "toCamel rv name =
     (let snake = ReplaceAll name '' '' ''_'' in
      case (if rv = Part000
            then (case slice snake 0 0 of
                    None \<Rightarrow> None
                  | Some first \<Rightarrow> Some (Replace snake first (ToLower first) 1))
            else Some snake) of
        None \<Rightarrow> Inl (Panic ''slice bounds out of range'')
      | Some snake \<Rightarrow> toCamel_loop (ToLower snake))"

text \<open>The bytes of \<open>chars\<close>, and the names whose last byte is one of them or a space.\<close>

definition is_sep :: "char \<Rightarrow> bool" where
  "is_sep c = (c \<in> set chars)"

definition ends_in_separator :: "string \<Rightarrow> bool" where
  "ends_in_separator name =
     (name \<noteq> [] \<and> (last name = CHR ''.'' \<or> last name = CHR ''_'' \<or> last name = CHR '' ''))"

subsection \<open>\<^verbatim>\<open>isIn\<close> and the fixed tables\<close>

definition types :: "string list" where
  "types = [''text'', ''csv'', ''xlsx'', ''xls'']"

definition reserved :: "string list" where
  "reserved = [''index'']"

definition ftypes :: "string list" where
  "ftypes = [''s'', ''i'', ''d'', ''f'']"

definition ctypes :: "string list" where
  "ctypes = [''y'', ''n'']"

text \<open>
  \<^verbatim>\<open>isIn\<close> takes the needle by pointer: the result is the answer together with the
  needle as the call leaves it. In \<^verbatim>\<open>toch.go\<close> the needle is lower-cased only when the
  flag is set, and the comparison is with the needle as it then is; in the later revision
  the comparison is always with the lower-cased needle, and the flag only decides whether
  the needle is overwritten.
\<close>

fun isIn :: "revision \<Rightarrow> string \<Rightarrow> string list \<Rightarrow> bool \<Rightarrow> bool \<times> string" where
  "isIn TochGo needle stack lower =
     (let needle' = (if lower then ToLower needle else needle)
      in (needle' \<in> set stack, needle'))"
| "isIn Part000 needle stack toLower =
     (let check = ToLower needle;
          needle' = (if toLower then check else needle)
      in (check \<in> set stack, needle'))"

text \<open>\<^verbatim>\<open>sep\<close>: the field separator of a source type, a tab or a comma.\<close>

definition sep :: "string \<Rightarrow> char" where
  "sep sType = (if sType = ''text'' \<or> sType = ''xlsx'' then CHR 0x09 else CHR '','')"

subsection \<open>\<^verbatim>\<open>strconv.ParseInt\<close> and decimal output\<close>

text \<open>
  \<^verbatim>\<open>strconv.ParseInt(s, 10, 32)\<close>: an optional sign and at least one decimal digit, and a
  value that fits 32 bits; anything else is an error (of which the model keeps the kind, its
  text being an approximation of Go's).
\<close>

definition digit_val :: "char \<Rightarrow> int option" where
  "digit_val c =
     (let n = (of_char c :: int) in if 48 \<le> n \<and> n \<le> 57 then Some (n - 48) else None)"

fun parse_digits :: "string \<Rightarrow> int \<Rightarrow> int option" where
  "parse_digits [] acc = Some acc"
| "parse_digits (c # cs) acc =
     (case digit_val c of None \<Rightarrow> None | Some d \<Rightarrow> parse_digits cs (10 * acc + d))"

definition ParseInt :: "string \<Rightarrow> string + int" where
  "ParseInt s =
     (let neg = (s \<noteq> [] \<and> hd s = CHR ''-'');
          ds = (if s \<noteq> [] \<and> (hd s = CHR ''+'' \<or> hd s = CHR ''-'') then tl s else s)
      in if ds = [] then Inl (''strconv.ParseInt: parsing '' @ s @ '': invalid syntax'')
         else case parse_digits ds 0 of
                None \<Rightarrow> Inl (''strconv.ParseInt: parsing '' @ s @ '': invalid syntax'')
              | Some un \<Rightarrow>
                  if \<not> neg \<and> un \<ge> 2147483648
                  then Inl (''strconv.ParseInt: parsing '' @ s @ '': value out of range'')
                  else if neg \<and> un > 2147483648
                  then Inl (''strconv.ParseInt: parsing '' @ s @ '': value out of range'')
                  else Inr (if neg then - un else un))"

text \<open>The verb \<^verbatim>\<open>%d\<close> of \<^verbatim>\<open>fmt\<close>, for a length.\<close>

fun decimal :: "nat \<Rightarrow> string" where
  "decimal n =
     (if n < 10 then [char_of (48 + n)] else decimal (n div 10) @ [char_of (48 + n mod 10)])"

subsection \<open>\<^verbatim>\<open>flags\<close>\<close>

text \<open>
  Go's \<^verbatim>\<open>int\<close> is taken to be 64 bits wide (as on the platforms ClickHouse runs on); the
  only arithmetic on it here is that of the skip count.
\<close>

type_synonym goint = "64 word"

text \<open>
  What \<^verbatim>\<open>flags\<close> hands back when its error is \<^verbatim>\<open>nil\<close>. The source type is passed by
  pointer and lower-cased in place by \<^verbatim>\<open>isIn\<close>; \<^verbatim>\<open>main\<close> reads it back, so it is part of
  the result. The field \<open>f_ignore\<close> is \<open>None\<close> in \<^verbatim>\<open>toch.go\<close>, which has no \<^verbatim>\<open>-i\<close> option.
\<close>

record FlagVals =
  f_sType :: string
  f_headers :: "string list"
  f_fieldTypes :: "string list"
  f_camel :: bool
  f_ignore :: "bool option"
  f_quote :: char
  f_xlArea :: "int list"

text \<open>The loop over the supplied field types: the first one that is not in \<open>ftypes\<close>.\<close>

fun check_fieldTypes :: "revision \<Rightarrow> string list \<Rightarrow> string option" where
  "check_fieldTypes rv [] = None"
| "check_fieldTypes rv (f # fs) =
     (case isIn rv f ftypes False of
        (False, f') \<Rightarrow> Some f'
      | (True, f') \<Rightarrow> check_fieldTypes rv fs)"

text \<open>
  The loop that fills \<^verbatim>\<open>xlArea\<close>; its first argument counts the rounds left. The named
  result \<^verbatim>\<open>err\<close> is a variable of the function: each \<^verbatim>\<open>rx, err = strconv.ParseInt(...)\<close>
  assigns it, also when the parse succeeds and the error is \<^verbatim>\<open>nil\<close>.
\<close>

fun xlArea_loop ::
  "nat \<Rightarrow> nat \<Rightarrow> string list \<Rightarrow> string list \<Rightarrow> int list \<Rightarrow> string option
     \<Rightarrow> error + (int list \<times> string option)" where
  "xlArea_loop 0 ind r c xlArea err = Inr (xlArea, err)"
| "xlArea_loop (Suc n) ind r c xlArea err =
     (if \<not> ind < length r then Inl (Panic ''index out of range'')
      else case ParseInt (r ! ind) of
        Inl e \<Rightarrow> Inr (xlArea, Some e)
      | Inr rx \<Rightarrow>
          (if \<not> ind < length c then Inl (Panic ''index out of range'')
           else case ParseInt (c ! ind) of
             Inl e \<Rightarrow> Inr (xlArea[ind := rx], Some e)
           | Inr cx \<Rightarrow> xlArea_loop n (ind + 1) r c (xlArea[ind := rx, 2 + ind := cx]) None))"

text \<open>
  \<^verbatim>\<open>flags\<close>, statement by statement. The arguments are the values behind the pointers. The
  check of the length of \<^verbatim>\<open>-q\<close> assigns \<^verbatim>\<open>err\<close> and goes on (there is no \<^verbatim>\<open>return\<close> in
  that branch); the next statement indexes the first byte of the option.
\<close>

definition flags ::
  "revision \<Rightarrow> string \<Rightarrow> string \<Rightarrow> string \<Rightarrow> string \<Rightarrow> string \<Rightarrow> string \<Rightarrow> string
     \<Rightarrow> goint \<Rightarrow> string \<Rightarrow> error + FlagVals" where
  "flags rv sType camelOpt header field quoteOpt xlRows xlCols skip ignoreOpt =
     (case isIn rv sType types True of
        (False, sType') \<Rightarrow> Inl (Err (''unrecognized source type: '' @ sType'))
      | (True, sType') \<Rightarrow>
     (case isIn rv camelOpt ctypes True of
        (False, camelOpt') \<Rightarrow> Inl (Err ''-c option is Y or N'')
      | (True, camelOpt') \<Rightarrow>
     (let camel = (camelOpt' = ''y'') in
      case (if rv = Part000
            then (case isIn rv ignoreOpt ctypes True of
                    (False, ignoreOpt') \<Rightarrow> Inl (Err ''-c option is Y or N'')
                  | (True, ignoreOpt') \<Rightarrow> Inr (Some (ignoreOpt' = ''y'')))
            else Inr None) of
        Inl e \<Rightarrow> Inl e
      | Inr ignore \<Rightarrow>
     (let err = (if length quoteOpt > 1 then Some ''-q option is a single character'' else None) in
      case quoteOpt of
        [] \<Rightarrow> Inl (Panic ''index out of range'')
      | quote # _ \<Rightarrow>
     (let headers = (if header \<noteq> []
                     then Split (ReplaceAll (ReplaceAll header '' '' []) [CHR 0x27] []) (CHR '','')
                     else []);
          fieldTypes = (if field \<noteq> []
                        then Split (ReplaceAll (ToLower (ReplaceAll field '' '' [])) [CHR 0x27] [])
                               (CHR '','')
                        else [])
      in case check_fieldTypes rv fieldTypes of
           Some f \<Rightarrow> Inl (Err (''not a valid field type: '' @ f))
         | None \<Rightarrow>
      if length headers \<noteq> length fieldTypes \<and> length headers > 0 \<and> length fieldTypes > 0
      then Inl (Err ''-h headers and -t field types must have same length'')
      else if sint skip < 0
      then Inl (Err ''-skip value must be non-negative'')
      else if \<not> Contains xlRows '':'' \<or> \<not> Contains xlCols '':''
      then Inl (Err ''invalid XL rows/cols specs'')
      else
        (case xlArea_loop 2 0 (Split xlRows (CHR '':'')) (Split xlCols (CHR '':'')) [0, 0, 0, 0] err of
           Inl p \<Rightarrow> Inl p
         | Inr (xlArea, err') \<Rightarrow>
             (case err' of
                Some e \<Rightarrow> Inl (Err e)
              | None \<Rightarrow>
                  Inr \<lparr>f_sType = sType', f_headers = headers, f_fieldTypes = fieldTypes,
                       f_camel = camel, f_ignore = ignore, f_quote = quote,
                       f_xlArea = xlArea\<rparr>)))))))"

subsection \<open>The types of \<^verbatim>\<open>chutils\<close> that the program handles\<close>

text \<open>
  The packages \<^verbatim>\<open>chutils\<close>, \<^verbatim>\<open>chutils/file\<close>, \<^verbatim>\<open>chutils/sql\<close>, \<^verbatim>\<open>chutils/str\<close>,
  \<^verbatim>\<open>clickhouse-go\<close> and \<^verbatim>\<open>excelize\<close> are imported by the program and are not part of it.
  Of their types, the model keeps the fields that the program reads or writes. The
  \<^verbatim>\<open>FieldDefs\<close> of a table definition is a Go map from the column index to a pointer to the
  field definition; here it is the list of the field definitions, in the order of their
  indices (a loop over the map that updates each entry through its pointer is a loop over
  the list).
\<close>

datatype ChType = ChUnknown | ChDate | ChInt | ChString | ChFloat

datatype EngineType = MergeTree

text \<open>
  The value of \<^verbatim>\<open>Missing\<close> (of type \<^verbatim>\<open>interface{}\<close>): nothing, a time in UTC (year, month,
  day, hour, minute, second, nanosecond), an integer, a float (the real number that it
  denotes) or a string.
\<close>

datatype GoValue =
    VNil
  | VTime int nat nat nat nat nat nat
  | VInt int
  | VFloat real
  | VString string

definition MaxInt64 :: int where
  "MaxInt64 = 9223372036854775807"

definition MaxFloat64 :: real where
  "MaxFloat64 = 2 ^ 1023 * (2 - 1 / 2 ^ 52)"

record ChField =
  Base :: ChType
  Length :: int

record FieldDef =
  Name :: string
  ChSpec :: ChField
  Missing :: GoValue

record TableDef =
  Key :: string
  Engine :: EngineType
  FieldDefs :: "FieldDef list"

definition NewTableDef :: "string \<Rightarrow> EngineType \<Rightarrow> FieldDef list \<Rightarrow> TableDef" where
  "NewTableDef key engine fielddefs = \<lparr>Key = key, Engine = engine, FieldDefs = fielddefs\<rparr>"

text \<open>
  A reader is what one of the three constructors of \<^verbatim>\<open>chutils\<close> was called with, and its
  table definition, empty until \<^verbatim>\<open>Init\<close> or \<^verbatim>\<open>SetTableSpec\<close>. The arguments are, in this
  order: for \<^verbatim>\<open>file.NewReader\<close> the file name, separator, end of line, quote, width, skip
  and maxRead (the open file and the buffer size are left out); for \<^verbatim>\<open>str.NewReader\<close> the
  string and the same six; for \<^verbatim>\<open>str.NewXlReader\<close> the workbook, the sheet, the four
  bounds, quote, skip and maxRead.
\<close>

datatype Workbook = OpenedReader string | OpenedFile string

datatype ReaderCall =
    FileNewReader string char char char int goint int
  | StrNewReader string char char char int goint int
  | StrNewXlReader Workbook string int int int int char goint int

record Reader =
  Built :: ReaderCall
  TableSpec :: TableDef

definition new_reader :: "ReaderCall \<Rightarrow> Reader" where
  "new_reader call = \<lparr>Built = call, TableSpec = NewTableDef [] MergeTree []\<rparr>"

fun Skip :: "Reader \<Rightarrow> goint" where
  "Skip r =
     (case Built r of
        FileNewReader name separator eol quote width skip maxRead \<Rightarrow> skip
      | StrNewReader body separator eol quote width skip maxRead \<Rightarrow> skip
      | StrNewXlReader xlr sheet rowS rowE colS colE quote skip maxRead \<Rightarrow> skip)"

declare Skip.simps [simp del]

subsection \<open>The world outside the program, and what the program does to it\<close>

text \<open>
  Every call that leaves the program is an event of the run, and its result is given by
  the world: an error (\<open>Some\<close> or \<open>Inl\<close> of its text) or a success. What \<^verbatim>\<open>http.Get\<close>
  followed by \<^verbatim>\<open>ioutil.ReadAll\<close> yields is one result, the body or the error of either.
\<close>

datatype WriteResult = Written | RowRejected | ConnectionLost

record World =
  w_connect :: "string \<Rightarrow> string \<Rightarrow> string \<Rightarrow> string option"
  w_httpGet :: "string \<Rightarrow> string + string"
  w_open :: "string \<Rightarrow> string option"
  w_create :: "string \<Rightarrow> string option"
  w_write :: "string \<Rightarrow> string \<Rightarrow> string option"
  w_close :: "string \<Rightarrow> string option"
  w_run :: "string list \<Rightarrow> string option"
  w_xlOpenReader :: "string \<Rightarrow> string option"
  w_xlOpenFile :: "string \<Rightarrow> string option"
  w_init :: "Reader \<Rightarrow> string + TableDef"
  w_rows :: "Reader \<Rightarrow> string + string list list"
  w_parses :: "ChType \<Rightarrow> string \<Rightarrow> bool"
  w_createTable :: "TableDef \<Rightarrow> string \<Rightarrow> string option"
  w_writeRow :: "string list \<Rightarrow> WriteResult"

datatype event =
    EvHelp
  | EvNewConnect string string string
  | EvHttpGet string
  | EvOpen string
  | EvOsCreate string
  | EvWrite string
  | EvClose string
  | EvRun "string list"
  | EvXlOpenReader
  | EvXlOpenFile string
  | EvInit
  | EvImpute int real
  | EvCreateTable string
  | EvNewWriter string
  | EvExport int "bool option"
  | EvWtrClose
  | EvRdrClose
  | EvConClose

text \<open>
  A computation yields an error or a value, and the events up to there. \<open>then_io\<close>
  sequences two of them (the second does not run after an error), \<open>call\<close> and \<open>call_val\<close>
  are one call to the world.
\<close>

type_synonym 'a io = "(error + 'a) \<times> event list"

definition ret :: "'a \<Rightarrow> 'a io" where
  "ret a = (Inr a, [])"

definition fail :: "error \<Rightarrow> 'a io" where
  "fail e = (Inl e, [])"

definition then_io :: "'a io \<Rightarrow> ('a \<Rightarrow> 'b io) \<Rightarrow> 'b io" where
  "then_io m f =
     (case m of
        (Inl e, tr) \<Rightarrow> (Inl e, tr)
      | (Inr a, tr) \<Rightarrow> (case f a of (r, tr') \<Rightarrow> (r, tr @ tr')))"

definition call :: "event \<Rightarrow> string option \<Rightarrow> unit io" where
  "call ev res = (case res of Some e \<Rightarrow> (Inl (Err e), [ev]) | None \<Rightarrow> (Inr (), [ev]))"

definition call_val :: "event \<Rightarrow> string + 'a \<Rightarrow> 'a io" where
  "call_val ev res = (case res of Inl e \<Rightarrow> (Inl (Err e), [ev]) | Inr a \<Rightarrow> (Inr a, [ev]))"

subsection \<open>\<^verbatim>\<open>NewReader\<close>, \<^verbatim>\<open>newHttp\<close> and \<^verbatim>\<open>newFile\<close>\<close>

text \<open>\<^verbatim>\<open>strings.LastIndex(s, "/")\<close> and \<^verbatim>\<open>getDir\<close> (of the later revision).\<close>

definition LastIndex :: "string \<Rightarrow> char \<Rightarrow> int" where
  "LastIndex s c =
     (let r = IndexAny (rev s) [c] in if r < 0 then - 1 else int (length s) - 1 - r)"

definition getDir :: "string \<Rightarrow> string" where
  "getDir path =
     (let ind = LastIndex path (CHR ''/'')
      in if ind > 0 then (case slice path 0 ind of Some d \<Rightarrow> d | None \<Rightarrow> path) else path)"

text \<open>
  The four entries of \<^verbatim>\<open>xl\<close> are read by index when the Excel reader is made: a shorter
  slice is a panic.
\<close>

definition xl_reader :: "Workbook \<Rightarrow> string \<Rightarrow> int list \<Rightarrow> char \<Rightarrow> goint \<Rightarrow> Reader io" where
  "xl_reader xlr xlSheet xl quote skip =
     (if length xl < 4 then fail (Panic ''index out of range'')
      else ret (new_reader
                 (StrNewXlReader xlr xlSheet (xl ! 0) (xl ! 1) (xl ! 2) (xl ! 3) quote skip 0)))"

definition newFile ::
  "revision \<Rightarrow> World \<Rightarrow> string \<Rightarrow> string \<Rightarrow> char \<Rightarrow> goint \<Rightarrow> int list \<Rightarrow> string
     \<Rightarrow> Reader io" where
  "newFile rv w source sType quote skip xl xlSheet =
     then_io (call (EvOpen source) (w_open w source)) (\<lambda>_.
       if sType = ''text'' \<or> sType = ''csv''
       then ret (new_reader (FileNewReader source (sep sType) (CHR 0x0A) quote 0 skip 0))
       else if sType = ''xlsx'' \<or> sType = ''xls''
       then
         then_io
           (if sType = ''xls''
            then
              then_io
                (let c = (if rv = TochGo
                          then [''bash'', ''-c'',
                                ''libreoffice --headless --convert-to xlsx -outdir /tmp/ '' @ source]
                          else [''libreoffice'', ''--headless'', ''--convert-to'', ''xlsx'',
                                ''--outdir'', getDir source, source])
                 in call (EvRun c) (w_run w c))
                (\<lambda>_. ret (Replace source ''.xls'' ''.xlsx'' 1))
            else ret source)
           (\<lambda>source.
              then_io (call (EvXlOpenFile source) (w_xlOpenFile w source)) (\<lambda>_.
                xl_reader (OpenedFile source) xlSheet xl quote skip))
       else fail (Err ''illegal -type''))"

definition newHttp ::
  "revision \<Rightarrow> World \<Rightarrow> string \<Rightarrow> string \<Rightarrow> char \<Rightarrow> goint \<Rightarrow> int list \<Rightarrow> string
     \<Rightarrow> Reader io" where
  "newHttp rv w source sType quote skip xl xlSheet =
     then_io (call_val (EvHttpGet source) (w_httpGet w source)) (\<lambda>body.
       if sType = ''text'' \<or> sType = ''csv''
       then ret (new_reader (StrNewReader body (sep sType) (CHR 0x0A) quote 0 skip 0))
       else if sType = ''xlsx''
       then
         then_io (call EvXlOpenReader (w_xlOpenReader w body)) (\<lambda>_.
           xl_reader (OpenedReader body) xlSheet xl quote skip)
       else if sType = ''xls''
       then
         (let fileName = (if rv = TochGo then ''/tmp/test.xls'' else ''/tmp/tmp.xls'')
          in then_io (call (EvOsCreate fileName) (w_create w fileName)) (\<lambda>_.
             then_io (call (EvWrite fileName) (w_write w fileName body)) (\<lambda>_.
             then_io (call (EvClose fileName) (w_close w fileName)) (\<lambda>_.
               newFile rv w fileName ''xls'' quote skip xl xlSheet))))
       else fail (Err ''illegal -type''))"

definition NewReader ::
  "revision \<Rightarrow> World \<Rightarrow> string \<Rightarrow> string \<Rightarrow> char \<Rightarrow> goint \<Rightarrow> int list \<Rightarrow> string
     \<Rightarrow> Reader io" where
  "NewReader rv w source sType quote skip xl xlSheet =
     (if Contains (ToLower source) ''http''
      then newHttp rv w source sType quote skip xl xlSheet
      else newFile rv w source sType quote skip xl xlSheet)"

text \<open>
  The events of \<^verbatim>\<open>newFile\<close>, and those of \<^verbatim>\<open>NewReader\<close>: no other event is in their
  traces.
\<close>

fun file_event :: "event \<Rightarrow> bool" where
  "file_event (EvOpen name) = True"
| "file_event (EvRun command) = True"
| "file_event (EvXlOpenFile name) = True"
| "file_event ev = False"

fun reader_event :: "event \<Rightarrow> bool" where
  "reader_event (EvHttpGet url) = True"
| "reader_event (EvOsCreate name) = True"
| "reader_event (EvWrite name) = True"
| "reader_event (EvClose name) = True"
| "reader_event EvXlOpenReader = True"
| "reader_event ev = file_event ev"




subsection \<open>The two loops of \<^verbatim>\<open>buildReader\<close> over the field definitions\<close>

text \<open>
  The loop over the fields read from the header row: the name is converted when \<open>camel\<close>
  is set, \<^verbatim>\<open>isIn\<close> looks it up in \<open>reserved\<close> (and, being handed the address of the name,
  leaves it lower-cased in \<^verbatim>\<open>toch.go\<close>, whose call sets the flag), a reserved name gets
  the suffix, and the name of the field of index 0 becomes the key.
\<close>

definition header_field :: "revision \<Rightarrow> bool \<Rightarrow> FieldDef \<Rightarrow> error + FieldDef" where
  "header_field rv camel fd =
     (case (if camel then toCamel rv (Name fd) else Inr (Name fd)) of
        Inl e \<Rightarrow> Inl e
      | Inr name \<Rightarrow>
          (case isIn rv name reserved (rv = TochGo) of
             (True, name') \<Rightarrow> Inr (fd\<lparr>Name := name' @ ''1''\<rparr>)
           | (False, name') \<Rightarrow> Inr (fd\<lparr>Name := name'\<rparr>)))"

fun header_loop ::
  "revision \<Rightarrow> bool \<Rightarrow> nat \<Rightarrow> FieldDef list \<Rightarrow> string \<Rightarrow> error + (FieldDef list \<times> string)"
where
  "header_loop rv camel ind [] key = Inr ([], key)"
| "header_loop rv camel ind (fd # fds) key =
     (case header_field rv camel fd of
        Inl e \<Rightarrow> Inl e
      | Inr fd' \<Rightarrow>
          (case header_loop rv camel (ind + 1) fds (if ind = 0 then Name fd' else key) of
             Inl e \<Rightarrow> Inl e
           | Inr (fds', key') \<Rightarrow> Inr (fd' # fds', key')))"

text \<open>The \<^verbatim>\<open>switch\<close> on the supplied type of one field, and the loop over the fields.\<close>

definition set_type :: "string \<Rightarrow> FieldDef \<Rightarrow> FieldDef" where
  "set_type t fd =
     (if t = ''d''
      then fd\<lparr>ChSpec := (ChSpec fd)\<lparr>Base := ChDate\<rparr>, Missing := VTime 1970 1 1 0 0 0 0\<rparr>
      else if t = ''i''
      then fd\<lparr>ChSpec := (ChSpec fd)\<lparr>Base := ChInt, Length := 64\<rparr>, Missing := VInt MaxInt64\<rparr>
      else if t = ''f''
      then fd\<lparr>ChSpec := (ChSpec fd)\<lparr>Base := ChFloat, Length := 64\<rparr>,
              Missing := VFloat MaxFloat64\<rparr>
      else fd\<lparr>ChSpec := (ChSpec fd)\<lparr>Base := ChString\<rparr>, Missing := VString ''!''\<rparr>)"

definition set_types :: "string list \<Rightarrow> FieldDef list \<Rightarrow> FieldDef list" where
  "set_types fieldTypes fds =
     map (\<lambda>ind. set_type (fieldTypes ! ind) (fds ! ind)) [0..<length fds]"

subsection \<open>\<^verbatim>\<open>Impute\<close> and \<^verbatim>\<open>Export\<close>\<close>

text \<open>
  Modelled from the spec: \<^verbatim>\<open>TableDef.Impute\<close> of \<^verbatim>\<open>chutils\<close> is called by the program and
  is not in its source. The specification (Type Inference Engine) has it read the rows of
  the reader once and, per column, count the non-empty cells that parse under each
  candidate type, in the order Date, Int64, Float64: the first type whose fraction of
  parsed cells meets or exceeds the threshold is assigned, and String otherwise. Whether
  a cell parses under a type is given by the world. A column with no non-empty cell has
  no fraction; it is typed String here.
\<close>

definition column :: "nat \<Rightarrow> string list list \<Rightarrow> string list" where
  "column i rows = map (\<lambda>row. if i < length row then row ! i else []) rows"

definition nonempty_cells :: "string list \<Rightarrow> string list" where
  "nonempty_cells cells = filter (\<lambda>c. c \<noteq> []) cells"

definition parsed_cells :: "(string \<Rightarrow> bool) \<Rightarrow> string list \<Rightarrow> string list" where
  "parsed_cells p cells = filter p (nonempty_cells cells)"

definition meets :: "(string \<Rightarrow> bool) \<Rightarrow> string list \<Rightarrow> real \<Rightarrow> bool" where
  "meets p cells tol =
     (nonempty_cells cells \<noteq> [] \<and>
      tol \<le> real (length (parsed_cells p cells)) / real (length (nonempty_cells cells)))"

definition impute_type :: "(ChType \<Rightarrow> string \<Rightarrow> bool) \<Rightarrow> string list \<Rightarrow> real \<Rightarrow> ChType" where
  "impute_type parses cells tol =
     (if meets (parses ChDate) cells tol then ChDate
      else if meets (parses ChInt) cells tol then ChInt
      else if meets (parses ChFloat) cells tol then ChFloat
      else ChString)"

definition impute_fields ::
  "(ChType \<Rightarrow> string \<Rightarrow> bool) \<Rightarrow> string list list \<Rightarrow> real \<Rightarrow> FieldDef list \<Rightarrow> FieldDef list"
where
  "impute_fields parses rows tol fds =
     map (\<lambda>ind. (fds ! ind)\<lparr>ChSpec := (ChSpec (fds ! ind))
                      \<lparr>Base := impute_type parses (column ind rows) tol\<rparr>\<rparr>)
       [0..<length fds]"

definition Impute :: "World \<Rightarrow> Reader \<Rightarrow> int \<Rightarrow> real \<Rightarrow> TableDef io" where
  "Impute w rdr rowsToExamine tol =
     then_io (call_val (EvImpute rowsToExamine tol) (w_rows w rdr)) (\<lambda>rows.
       ret ((TableSpec rdr)
              \<lparr>FieldDefs := impute_fields (w_parses w) rows tol (FieldDefs (TableSpec rdr))\<rparr>))"

text \<open>
  Modelled from the spec: \<^verbatim>\<open>chutils.Export\<close> is called by the program and is not in its
  source. The specification (Export Engine) has it buffer the rows into batches of the
  given size (0 for a single batch) and write them in order. Without tolerance, a failing
  write aborts the export with an error. With tolerance, a rejected row is counted and
  skipped and the batch goes on; losing the connection is fatal in both modes. The result
  is the number of rows written and of rows skipped.
\<close>

function batches :: "nat \<Rightarrow> 'a list \<Rightarrow> 'a list list" where
  "batches n rows =
     (if n = 0 \<or> length rows \<le> n then [rows] else take n rows # batches n (drop n rows))"
  by pat_completeness auto
termination
  by (relation "measure (\<lambda>(n, rows). length rows)") auto

declare batches.simps [simp del]

fun write_batch ::
  "(string list \<Rightarrow> WriteResult) \<Rightarrow> bool \<Rightarrow> string list list \<Rightarrow> nat \<times> nat
     \<Rightarrow> string + nat \<times> nat" where
  "write_batch wr tolerate [] counts = Inr counts"
| "write_batch wr tolerate (row # rows) (written, skipped) =
     (case wr row of
        Written \<Rightarrow> write_batch wr tolerate rows (written + 1, skipped)
      | RowRejected \<Rightarrow>
          if tolerate then write_batch wr tolerate rows (written, skipped + 1)
          else Inl ''export: row rejected by the destination''
      | ConnectionLost \<Rightarrow> Inl ''export: connection to the destination lost'')"

fun write_batches ::
  "(string list \<Rightarrow> WriteResult) \<Rightarrow> bool \<Rightarrow> string list list list \<Rightarrow> nat \<times> nat
     \<Rightarrow> string + nat \<times> nat" where
  "write_batches wr tolerate [] counts = Inr counts"
| "write_batches wr tolerate (b # bs) counts =
     (case write_batch wr tolerate b counts of
        Inl e \<Rightarrow> Inl e
      | Inr counts' \<Rightarrow> write_batches wr tolerate bs counts')"

text \<open>
  \<^verbatim>\<open>toch.go\<close> calls \<^verbatim>\<open>Export\<close> with three arguments, the later revision with the
  tolerance as the fourth: the last argument here is \<open>None\<close> or \<open>Some\<close> of it, and no
  tolerance is the behaviour without the argument.
\<close>

definition Export :: "World \<Rightarrow> Reader \<Rightarrow> int \<Rightarrow> bool option \<Rightarrow> (nat \<times> nat) io" where
  "Export w rdr after ignore =
     then_io (call_val (EvExport after ignore) (w_rows w rdr)) (\<lambda>rows.
       case write_batches (w_writeRow w) (ignore = Some True) (batches (nat after) rows) (0, 0) of
         Inl e \<Rightarrow> fail (Err e)
       | Inr counts \<Rightarrow> ret counts)"

subsection \<open>\<^verbatim>\<open>buildReader\<close>\<close>

definition unknown_field :: "string \<Rightarrow> FieldDef" where
  "unknown_field name =
     \<lparr>Name = name, ChSpec = \<lparr>Base = ChUnknown, Length = 0\<rparr>, Missing = VNil\<rparr>"

definition buildReader ::
  "revision \<Rightarrow> World \<Rightarrow> string \<Rightarrow> string \<Rightarrow> goint \<Rightarrow> char \<Rightarrow> bool \<Rightarrow> string list
     \<Rightarrow> string list \<Rightarrow> int list \<Rightarrow> string \<Rightarrow> string \<Rightarrow> Reader io" where
  "buildReader rv w source sType skip0 quote camel headers fieldTypes xl xlSheet table =
     (let skip = (if length headers = 0 then skip0 + 1 else skip0) in
      then_io (NewReader rv w source sType quote skip xl xlSheet) (\<lambda>rdr.
      then_io
        (if length headers = 0
         then
           then_io (call_val EvInit (w_init w rdr)) (\<lambda>spec.
             case header_loop rv camel 0 (FieldDefs spec) (Key spec) of
               Inl e \<Rightarrow> fail e
             | Inr (fds, key) \<Rightarrow> ret (rdr\<lparr>TableSpec := spec\<lparr>FieldDefs := fds, Key := key\<rparr>\<rparr>))
         else
           ret (rdr\<lparr>TableSpec := NewTableDef (hd headers) MergeTree (map unknown_field headers)\<rparr>))
        (\<lambda>rdr.
      then_io
        (if length fieldTypes = 0
         then then_io (Impute w rdr 0 (95 / 100)) (\<lambda>spec. ret (rdr\<lparr>TableSpec := spec\<rparr>))
         else if length fieldTypes \<noteq> length (FieldDefs (TableSpec rdr))
         then fail (Err (''supplied field types have length '' @ decimal (length fieldTypes)
                         @ '', data has '' @ decimal (length (FieldDefs (TableSpec rdr)))
                         @ '' columns''))
         else ret (rdr\<lparr>TableSpec := (TableSpec rdr)
                         \<lparr>FieldDefs := set_types fieldTypes (FieldDefs (TableSpec rdr))\<rparr>\<rparr>))
        (\<lambda>rdr.
      then_io (call (EvCreateTable table) (w_createTable w (TableSpec rdr) table)) (\<lambda>_.
        ret rdr)))))"

subsection \<open>\<^verbatim>\<open>main\<close>\<close>

text \<open>The command line, after \<^verbatim>\<open>flag.Parse\<close>: every option has its value or its default.\<close>

record Args =
  a_host :: string
  a_user :: string
  a_password :: string
  a_table :: string
  a_type :: string
  a_s :: string
  a_c :: string
  a_h :: string
  a_t :: string
  a_q :: string
  a_skip :: goint
  a_i :: string
  a_rows :: string
  a_cols :: string
  a_sheet :: string

definition defaults :: Args where
  "defaults =
     \<lparr>a_host = ''127.0.0.1'', a_user = ''default'', a_password = [], a_table = [],
      a_type = [], a_s = [], a_c = ''N'', a_h = [], a_t = [], a_q = [CHR 0x22], a_skip = 0,
      a_i = ''N'', a_rows = ''0:0'', a_cols = ''0:0'', a_sheet = []\<rparr>"

text \<open>
  How the process ends: it returns from \<^verbatim>\<open>main\<close> (with the numbers of rows written and
  skipped that the export reported), \<^verbatim>\<open>log.Fatalln\<close> prints the error and exits with
  status 1, or a panic ends it with status 2.
\<close>

datatype Outcome = Finished nat nat | Fatal string | Crashed string

fun exit_status :: "Outcome \<Rightarrow> nat" where
  "exit_status (Finished written skipped) = 0"
| "exit_status (Fatal msg) = 1"
| "exit_status (Crashed msg) = 2"

text \<open>
  \<^verbatim>\<open>main\<close>. The deferred calls run when \<^verbatim>\<open>main\<close> returns and when it panics, and not
  after \<^verbatim>\<open>log.Fatalln\<close>; a panic can only come from \<^verbatim>\<open>flags\<close>, before any of them is
  registered, or from \<^verbatim>\<open>buildReader\<close>, when the connection is the only one.
\<close>

definition run_flags :: "revision \<Rightarrow> Args \<Rightarrow> error + FlagVals" where
  "run_flags rv a =
     flags rv (a_type a) (a_c a) (a_h a) (a_t a) (a_q a) (a_rows a) (a_cols a) (a_skip a) (a_i a)"

definition main :: "revision \<Rightarrow> World \<Rightarrow> Args \<Rightarrow> Outcome \<times> event list" where
  "main rv w a =
     (case run_flags rv a of
        Inl (Err e) \<Rightarrow> (Fatal e, if rv = Part000 then [EvHelp] else [])
      | Inl (Panic p) \<Rightarrow> (Crashed p, [])
      | Inr fl \<Rightarrow>
          (case then_io (call (EvNewConnect (a_host a) (a_user a) (a_password a))
                           (w_connect w (a_host a) (a_user a) (a_password a))) (\<lambda>_.
                then_io (buildReader rv w (a_s a) (f_sType fl) (a_skip a) (f_quote fl)
                           (f_camel fl) (f_headers fl) (f_fieldTypes fl) (f_xlArea fl)
                           (a_sheet a) (a_table a)) (\<lambda>rdr.
                then_io (Inr (), [EvNewWriter (a_table a)]) (\<lambda>_.
                  Export w rdr (if rv = TochGo then 0 else 1000) (f_ignore fl)))) of
             (Inl (Err e), tr) \<Rightarrow> (Fatal e, tr)
           | (Inl (Panic p), tr) \<Rightarrow> (Crashed p, tr @ [EvConClose])
           | (Inr (written, skipped), tr) \<Rightarrow>
               (Finished written skipped, tr @ [EvWtrClose, EvRdrClose, EvConClose])))"

text \<open>The events that touch the source of the data or the destination store.\<close>

fun source_or_destination :: "event \<Rightarrow> bool" where
  "source_or_destination EvHelp = False"
| "source_or_destination ev = True"

subsection \<open>A world for the examples\<close>

text \<open>
  In \<open>example_world\<close> every call succeeds: the header row has three names, there are three
  data rows, integers are digits, floats are digits and dots, and nothing is a date. In
  \<open>rejecting_world\<close> the destination rejects the row that ends in \<open>bad\<close>.
\<close>

definition example_parses :: "ChType \<Rightarrow> string \<Rightarrow> bool" where
  "example_parses t s =
     (case t of
        ChInt \<Rightarrow> list_all (\<lambda>c. digit_val c \<noteq> None) s
      | ChFloat \<Rightarrow> list_all (\<lambda>c. digit_val c \<noteq> None \<or> c = CHR ''.'') s
      | _ \<Rightarrow> False)"

definition example_rows :: "string list list" where
  "example_rows = [[''1'', ''2.50'', ''pen''], [''2'', ''0.75'', ''ink''], [''3'', ''1.00'', ''bad'']]"

definition example_world :: World where
  "example_world =
     \<lparr>w_connect = (\<lambda>host user password. None),
      w_httpGet = (\<lambda>url. Inr ''Index,Unit price,item''),
      w_open = (\<lambda>name. None),
      w_create = (\<lambda>name. None),
      w_write = (\<lambda>name body. None),
      w_close = (\<lambda>name. None),
      w_run = (\<lambda>command. None),
      w_xlOpenReader = (\<lambda>body. None),
      w_xlOpenFile = (\<lambda>name. None),
      w_init = (\<lambda>rdr. Inr (NewTableDef ''Index'' MergeTree
                  [unknown_field ''Index'', unknown_field ''Unit price'', unknown_field ''item''])),
      w_rows = (\<lambda>rdr. Inr example_rows),
      w_parses = example_parses,
      w_createTable = (\<lambda>spec table. None),
      w_writeRow = (\<lambda>row. Written)\<rparr>"

definition rejecting_world :: World where
  "rejecting_world =
     example_world\<lparr>w_writeRow := (\<lambda>row. if last row = ''bad'' then RowRejected else Written)\<rparr>"

section \<open>Properties\<close>

subsection \<open>Bytes and strings\<close>

lemma char_eq_code: "c = d \<longleftrightarrow> (of_char c :: nat) = of_char d"
  by simp

lemma is_sep_code: "is_sep c \<longleftrightarrow> (of_char c :: nat) = 46 \<or> (of_char c :: nat) = 95"
  by (auto simp: is_sep_def chars_def char_eq_code [of c])

lemma of_char_upper_byte:
  "(of_char (upper_byte c) :: nat) = (if 97 \<le> (of_char c :: nat) \<and> (of_char c :: nat) \<le> 122 then of_char c - 32 else of_char c)"
  by (auto simp: upper_byte_def Let_def)

lemma of_char_lower_byte:
  "(of_char (lower_byte c) :: nat) = (if 65 \<le> (of_char c :: nat) \<and> (of_char c :: nat) \<le> 90 then of_char c + 32 else of_char c)"
  by (auto simp: lower_byte_def Let_def)

lemma upper_byte_sep: "is_sep (upper_byte c) = is_sep c"
  unfolding is_sep_code of_char_upper_byte by auto

lemma lower_byte_sep: "is_sep (lower_byte c) = is_sep c"
  unfolding is_sep_code of_char_lower_byte by auto

lemma lower_byte_space: "lower_byte c = CHR '' '' \<longleftrightarrow> c = CHR '' ''"
  unfolding char_eq_code [of _ "CHR '' ''"] of_char_lower_byte by auto

lemma IndexAny_ge: "- 1 \<le> IndexAny s cs"
  by (induction s) (auto simp: Let_def)

lemma IndexAny_none: "(\<forall>c\<in>set s. c \<notin> set cs) \<Longrightarrow> IndexAny s cs = - 1"
  by (induction s) (auto simp: Let_def)

lemma IndexAny_first:
  "(\<forall>c\<in>set pre. c \<notin> set cs) \<Longrightarrow> c \<in> set cs \<Longrightarrow> IndexAny (pre @ c # post) cs = int (length pre)"
  by (induction pre) (auto simp: Let_def)

lemma first_sep_split:
  "\<exists>c\<in>set s. P c \<Longrightarrow> \<exists>pre c post. s = pre @ c # post \<and> P c \<and> (\<forall>x\<in>set pre. \<not> P x)"
  by (metis split_list_first_prop)

lemma replace_first_at:
  "c \<notin> set pre \<Longrightarrow>
   replace_upto (Suc 0) (pre @ c # d # post) [c, d] new = pre @ new @ post"
  by (induction pre) auto

lemma toCamel_loop_free:
  "\<forall>c\<in>set s. \<not> is_sep c \<Longrightarrow> toCamel_loop s = Inr s"
  using IndexAny_none [of s chars] by (subst toCamel_loop.simps) (simp add: is_sep_def)

lemma toCamel_loop_last:
  assumes "\<forall>x\<in>set pre. \<not> is_sep x" "is_sep c"
  shows "toCamel_loop (pre @ [c]) = Inl (Panic ''slice bounds out of range'')"
proof -
  have "IndexAny (pre @ [c]) chars = int (length pre)"
    using assms by (intro IndexAny_first) (auto simp: is_sep_def)
  then show ?thesis
    by (subst toCamel_loop.simps) (simp add: slice_def)
qed

lemma toCamel_loop_step:
  assumes "\<forall>x\<in>set pre. \<not> is_sep x" "is_sep c"
  shows "toCamel_loop (pre @ c # d # post) = toCamel_loop (pre @ upper_byte d # post)"
proof -
  have i: "IndexAny (pre @ c # d # post) chars = int (length pre)"
    using assms by (intro IndexAny_first) (auto simp: is_sep_def)
  have s1: "slice (pre @ c # d # post) (int (length pre)) (int (length pre) + 2) = Some [c, d]"
    by (simp add: slice_def)
  have s2: "slice (pre @ c # d # post) (int (length pre) + 1) (int (length pre) + 2) = Some [d]"
    by (simp add: slice_def nat_add_distrib)
  have "c \<notin> set pre" using assms by auto
  then have r: "Replace (pre @ c # d # post) [c, d] (ToUpper [d]) 1 = pre @ upper_byte d # post"
    using replace_first_at [of c pre d post "[upper_byte d]"]
    by (simp add: Replace_def ToUpper_def)
  show ?thesis
    by (subst toCamel_loop.simps) (simp add: i s1 s2 r)
qed

lemma toCamel_loop_total:
  "(s = [] \<or> \<not> is_sep (last s) \<longrightarrow>
      (\<exists>r. toCamel_loop s = Inr r \<and> (\<forall>x\<in>set r. \<not> is_sep x))) \<and>
   (s \<noteq> [] \<and> is_sep (last s) \<longrightarrow>
      toCamel_loop s = Inl (Panic ''slice bounds out of range''))"
proof (induction "length s" arbitrary: s rule: less_induct)
  case less
  show ?case
  proof (cases "\<exists>c\<in>set s. is_sep c")
    case False
    then have free: "\<forall>c\<in>set s. \<not> is_sep c" by blast
    then have "toCamel_loop s = Inr s" by (rule toCamel_loop_free)
    moreover have "s \<noteq> [] \<Longrightarrow> \<not> is_sep (last s)" using free by simp
    ultimately show ?thesis using free by auto
  next
    case True
    then obtain pre c rest where s: "s = pre @ c # rest" and c: "is_sep c"
      and pre: "\<forall>x\<in>set pre. \<not> is_sep x"
      using first_sep_split [of s is_sep] by blast
    show ?thesis
    proof (cases rest)
      case Nil
      with s c pre show ?thesis by (simp add: toCamel_loop_last)
    next
      case (Cons d post)
      let ?s' = "pre @ upper_byte d # post"
      have eq: "toCamel_loop s = toCamel_loop ?s'"
        unfolding s Cons using pre c by (rule toCamel_loop_step)
      have len: "length ?s' < length s" by (simp add: s Cons)
      have last: "is_sep (last ?s') = is_sep (last s)"
        by (cases post) (simp_all add: s Cons upper_byte_sep)
      have ne: "?s' \<noteq> []" "s \<noteq> []" by (simp_all add: s)
      from less [OF len] show ?thesis
        unfolding eq last using ne by simp
    qed
  qed
qed

lemma replace_all_byte:
  "a \<noteq> b \<Longrightarrow> length s \<le> k \<Longrightarrow> replace_upto k s [a] [b] = map (\<lambda>c. if c = a then b else c) s"
  by (induction k s "[a]" "[b]" rule: replace_upto.induct) auto

lemma ReplaceAll_space:
  "ReplaceAll s '' '' ''_'' = map (\<lambda>c. if c = CHR '' '' then CHR ''_'' else c) s"
  by (simp add: ReplaceAll_def Replace_def replace_all_byte)

lemma toCamel_eq:
  "toCamel rv name = toCamel_loop (ToLower (ReplaceAll name '' '' ''_''))"
  by (cases rv) (simp_all add: toCamel_def slice_def Replace_def ToLower_def Let_def)

lemma prepared_last:
  assumes "name \<noteq> []"
  shows "is_sep (last (ToLower (ReplaceAll name '' '' ''_''))) = ends_in_separator name"
proof -
  have "last (ToLower (ReplaceAll name '' '' ''_''))
      = lower_byte (if last name = CHR '' '' then CHR ''_'' else last name)"
    using assms by (simp add: ReplaceAll_space ToLower_def last_map)
  then have "is_sep (last (ToLower (ReplaceAll name '' '' ''_'')))
      = is_sep (if last name = CHR '' '' then CHR ''_'' else last name)"
    by (simp only: lower_byte_sep)
  also have "\<dots> = ends_in_separator name"
    using assms by (auto simp: ends_in_separator_def is_sep_def chars_def)
  finally show ?thesis .
qed

text \<open>Facts for evaluating the definitions on concrete input, by rewriting.\<close>

lemma char_of_eq_code: "char_of (n::nat) = c \<longleftrightarrow> n mod 256 = of_char c"
  by (simp add: char_of_eq_iff take_bit_eq_mod)

lemma eq_char_of_code: "c = char_of (n::nat) \<longleftrightarrow> n mod 256 = of_char c"
  by (auto simp: char_of_eq_code [symmetric])

lemmas byte_eval = lower_byte_def upper_byte_def ToLower_def ToUpper_def Let_def
  char_of_eq_code eq_char_of_code

lemmas flag_eval = flags_def run_flags_def defaults_def types_def ctypes_def ftypes_def
  ParseInt_def digit_val_def ReplaceAll_def Replace_def numeral_2_eq_2 byte_eval

subsection \<open>The camel-case transform\<close>

text \<open>
  Claim C9. \<^verbatim>\<open>toCamel\<close> is total exactly on the names that do not end in a dot, an
  underscore or a space. On such a name (the empty name among them) it returns, and the
  name it returns has no dot and no underscore. On a name that ends in one of the three,
  the slice \<^verbatim>\<open>snake[ind:ind+2]\<close> reaches past the end of the string and the function
  panics. The function is defined by a recursion that is proved to terminate, so that a
  result is a run that ends. Names are ASCII (see the case mappings above).
\<close>

theorem toCamel_total_or_panic:
  "(ascii name \<longrightarrow> \<not> ends_in_separator name \<longrightarrow>
      (\<exists>r. toCamel rv name = Inr r \<and> CHR ''.'' \<notin> set r \<and> CHR ''_'' \<notin> set r)) \<and>
   (ascii name \<longrightarrow> ends_in_separator name \<longrightarrow>
      toCamel rv name = Inl (Panic ''slice bounds out of range''))"
proof (cases "name = []")
  case True
  have "toCamel_loop [] = Inr []" by (rule toCamel_loop_free) simp
  with True show ?thesis
    by (simp add: toCamel_eq ReplaceAll_space ToLower_def ends_in_separator_def)
next
  case False
  let ?s = "ToLower (ReplaceAll name '' '' ''_'')"
  have ne: "?s \<noteq> []" using False by (simp add: ReplaceAll_space ToLower_def)
  have l: "is_sep (last ?s) = ends_in_separator name" using False by (rule prepared_last)
  have "\<And>r. (\<forall>x\<in>set r. \<not> is_sep x) \<Longrightarrow> CHR ''.'' \<notin> set r \<and> CHR ''_'' \<notin> set r"
    by (auto simp: is_sep_def chars_def)
  then show ?thesis
    using toCamel_loop_total [of ?s] ne l unfolding toCamel_eq by auto
qed

theorem toCamel_total_or_panic_witness:
  "ascii ''Unit price.usd'' \<and> \<not> ends_in_separator ''Unit price.usd'' \<and>
   (\<exists>r. toCamel TochGo ''Unit price.usd'' = Inr r \<and> CHR ''.'' \<notin> set r \<and> CHR ''_'' \<notin> set r) \<and>
   ascii ''price_'' \<and> ends_in_separator ''price_'' \<and>
   toCamel Part000 ''price_'' = Inl (Panic ''slice bounds out of range'')"
  using toCamel_total_or_panic [of "''Unit price.usd''" TochGo]
    toCamel_total_or_panic [of "''price_''" Part000]
  by (simp add: ascii_def ends_in_separator_def)

subsection \<open>Flag validation\<close>

lemma Split_nonempty: "Split s c \<noteq> []"
  by (induction s) (auto split: list.splits)

lemma flags_empty_quote:
  assumes "fst (isIn rv sType types True)" "fst (isIn rv camelOpt ctypes True)"
    "rv = Part000 \<longrightarrow> fst (isIn rv ignoreOpt ctypes True)"
  shows "flags rv sType camelOpt header field [] xlRows xlCols skip ignoreOpt
           = Inl (Panic ''index out of range'')"
  using assms by (cases rv) (auto simp: flags_def Let_def split: prod.splits)

lemma flags_early_error:
  assumes "\<not> (fst (isIn rv sType types True) \<and> fst (isIn rv camelOpt ctypes True) \<and>
    (rv = Part000 \<longrightarrow> fst (isIn rv ignoreOpt ctypes True)))"
  shows "\<exists>e. flags rv sType camelOpt header field quoteOpt xlRows xlCols skip ignoreOpt
           = Inl (Err e)"
proof -
  obtain b1 s1 where i1: "isIn rv sType types True = (b1, s1)" by (cases "isIn rv sType types True")
  obtain b2 s2 where i2: "isIn rv camelOpt ctypes True = (b2, s2)" by (cases "isIn rv camelOpt ctypes True")
  obtain b3 s3 where i3: "isIn rv ignoreOpt ctypes True = (b3, s3)" by (cases "isIn rv ignoreOpt ctypes True")
  show ?thesis
  proof (cases b1)
    case False
    then show ?thesis unfolding flags_def i1 by simp
  next
    case b1: True
    show ?thesis
    proof (cases b2)
      case False
      then show ?thesis unfolding flags_def i1 i2 using b1 by simp
    next
      case b2: True
      have "rv = Part000" "\<not> b3" using assms b1 b2 unfolding i1 i2 i3 by simp_all
      then show ?thesis unfolding flags_def i1 i2 i3 using b1 b2 by (simp add: Let_def)
    qed
  qed
qed

lemma main_flags_Err:
  "run_flags rv a = Inl (Err e) \<Longrightarrow> main rv w a = (Fatal e, if rv = Part000 then [EvHelp] else [])"
  by (simp add: main_def)

lemma main_flags_Panic:
  "run_flags rv a = Inl (Panic p) \<Longrightarrow> main rv w a = (Crashed p, [])"
  by (simp add: main_def)

lemma main_flags_ok:
  "run_flags rv a = Inr fl \<Longrightarrow>
   \<exists>out tr. main rv w a = (out, EvNewConnect (a_host a) (a_user a) (a_password a) # tr)"
  by (auto simp: main_def then_io_def call_def split: option.splits prod.splits sum.splits error.splits)

lemma flags_mismatch:
  assumes "header \<noteq> []" "field \<noteq> []" "quoteOpt \<noteq> []"
    "length (Split (ReplaceAll (ReplaceAll header '' '' []) [CHR 0x27] []) (CHR '',''))
       \<noteq> length (Split (ReplaceAll (ToLower (ReplaceAll field '' '' [])) [CHR 0x27] []) (CHR '',''))"
  shows "\<exists>e. flags rv sType camelOpt header field quoteOpt xlRows xlCols skip ignoreOpt = Inl (Err e)"
  using assms Split_nonempty
  by (cases rv; cases quoteOpt)
    (auto simp: flags_def Let_def split: prod.splits bool.splits option.splits)

text \<open>
  With a \<^verbatim>\<open>-q\<close> that is not empty, header names and field types of different lengths end
  the run in \<^verbatim>\<open>flags\<close>, with an error and before anything is opened or fetched.
\<close>

lemma mismatch_rejected_before_io:
  assumes "a_h a \<noteq> []" "a_t a \<noteq> []" "a_q a \<noteq> []"
    "length (Split (ReplaceAll (ReplaceAll (a_h a) '' '' []) [CHR 0x27] []) (CHR '',''))
       \<noteq> length (Split (ReplaceAll (ToLower (ReplaceAll (a_t a) '' '' [])) [CHR 0x27] []) (CHR '',''))"
  shows "\<exists>e. main rv w a = (Fatal e, if rv = Part000 then [EvHelp] else [])"
proof -
  obtain e where "run_flags rv a = Inl (Err e)"
    unfolding run_flags_def using flags_mismatch [OF assms] by blast
  then show ?thesis by (auto simp: main_flags_Err)
qed

text \<open>
  Claim C10, as amended. \<^verbatim>\<open>flags\<close> reads the first byte of \<^verbatim>\<open>-q\<close> with no check that
  there is one, after the checks of \<^verbatim>\<open>-type\<close>, \<^verbatim>\<open>-c\<close> and (in the later revision) \<^verbatim>\<open>-i\<close>.
  So with an empty \<^verbatim>\<open>-q\<close>: when those options pass their checks the program panics (index
  out of range) before any call to the outside, and when one of them fails the program
  ends with the error of that check, and the index is not reached.
\<close>

theorem empty_quote_panics:
  "a_q a = [] \<Longrightarrow>
     (if fst (isIn rv (a_type a) types True) \<and> fst (isIn rv (a_c a) ctypes True) \<and>
         (rv = Part000 \<longrightarrow> fst (isIn rv (a_i a) ctypes True))
      then main rv w a = (Crashed ''index out of range'', [])
      else \<exists>e. main rv w a = (Fatal e, if rv = Part000 then [EvHelp] else []))"
proof -
  assume q: "a_q a = []"
  let ?ok = "fst (isIn rv (a_type a) types True) \<and> fst (isIn rv (a_c a) ctypes True) \<and>
         (rv = Part000 \<longrightarrow> fst (isIn rv (a_i a) ctypes True))"
  show ?thesis
  proof (cases ?ok)
    case True
    then have "run_flags rv a = Inl (Panic ''index out of range'')"
      unfolding run_flags_def q by (intro flags_empty_quote) auto
    then show ?thesis using True by (simp add: main_flags_Panic)
  next
    case False
    then obtain e where "run_flags rv a = Inl (Err e)"
      unfolding run_flags_def using flags_early_error by blast
    then show ?thesis using False by (auto simp: main_flags_Err)
  qed
qed

theorem empty_quote_panics_witness:
  "a_q (defaults\<lparr>a_type := ''csv'', a_q := []\<rparr>) = [] \<and>
   main Part000 example_world (defaults\<lparr>a_type := ''csv'', a_q := []\<rparr>)
     = (Crashed ''index out of range'', []) \<and>
   a_q (defaults\<lparr>a_type := ''csv'', a_c := ''maybe'', a_q := []\<rparr>) = [] \<and>
   (\<exists>e. main TochGo example_world (defaults\<lparr>a_type := ''csv'', a_c := ''maybe'', a_q := []\<rparr>)
     = (Fatal e, []))"
  using empty_quote_panics [of "defaults\<lparr>a_type := ''csv'', a_q := []\<rparr>" Part000 example_world]
    empty_quote_panics [of "defaults\<lparr>a_type := ''csv'', a_c := ''maybe'', a_q := []\<rparr>" TochGo example_world]
  by (simp add: defaults_def types_def ctypes_def byte_eval)

theorem empty_quote_no_panic_counterexample:
  "a_q (defaults\<lparr>a_type := ''bogus'', a_q := []\<rparr>) = [] \<and>
   main TochGo example_world (defaults\<lparr>a_type := ''bogus'', a_q := []\<rparr>)
     = (Fatal ''unrecognized source type: bogus'', [])"
  by (simp add: main_def flag_eval)

text \<open>
  Claim C5 says that every invalid configuration, a \<^verbatim>\<open>-q\<close> longer than one character in
  particular, makes \<^verbatim>\<open>flags\<close> return an error, so that the run ends before any I/O. The
  branch for the long \<^verbatim>\<open>-q\<close> assigns the error and does not return; the parses of the
  Excel ranges then assign \<^verbatim>\<open>nil\<close> to the same variable. With \<^verbatim>\<open>-q ab\<close> and everything
  else valid \<^verbatim>\<open>flags\<close> returns no error, the quote is \<open>a\<close>, and \<^verbatim>\<open>main\<close> goes on to
  connect to the destination.
\<close>

theorem long_quote_accepted:
  "run_flags rv (defaults\<lparr>a_type := ''csv'', a_q := ''ab''\<rparr>) =
     Inr \<lparr>f_sType = ''csv'', f_headers = [], f_fieldTypes = [], f_camel = False,
          f_ignore = (if rv = Part000 then Some False else None), f_quote = CHR ''a'',
          f_xlArea = [0, 0, 0, 0]\<rparr> \<and>
   (\<exists>out tr. main rv w (defaults\<lparr>a_type := ''csv'', a_q := ''ab''\<rparr>)
      = (out, EvNewConnect ''127.0.0.1'' ''default'' [] # tr))"
proof -
  have f: "run_flags rv (defaults\<lparr>a_type := ''csv'', a_q := ''ab''\<rparr>) =
     Inr \<lparr>f_sType = ''csv'', f_headers = [], f_fieldTypes = [], f_camel = False,
          f_ignore = (if rv = Part000 then Some False else None), f_quote = CHR ''a'',
          f_xlArea = [0, 0, 0, 0]\<rparr>"
    by (cases rv) (simp_all add: flag_eval)
  from main_flags_ok [OF f, of w] show ?thesis
    using f by (simp add: defaults_def)
qed

text \<open>
  Claim C3 (header names and field types of different lengths are rejected with an error
  before any row is read) holds whenever \<^verbatim>\<open>-q\<close> is not empty, by
  \<open>mismatch_rejected_before_io\<close>. With an empty \<^verbatim>\<open>-q\<close> the index of its first byte comes
  before the comparison of the lengths, and the run ends in the panic instead.
\<close>

theorem mismatch_with_empty_quote_panics:
  "main rv w (defaults\<lparr>a_type := ''csv'', a_h := ''a,b,c'', a_t := ''s,s'', a_q := []\<rparr>)
     = (Crashed ''index out of range'', [])"
proof -
  have "run_flags rv (defaults\<lparr>a_type := ''csv'', a_h := ''a,b,c'', a_t := ''s,s'', a_q := []\<rparr>)
      = Inl (Panic ''index out of range'')"
    unfolding run_flags_def
    by (cases rv) (simp_all add: flags_empty_quote defaults_def types_def ctypes_def byte_eval)
  then show ?thesis by (rule main_flags_Panic)
qed

subsection \<open>What a successful \<^verbatim>\<open>buildReader\<close> has done\<close>

lemma then_io_Inr:
  "then_io m f = (Inr b, tr) \<longleftrightarrow>
     (\<exists>a tr1 tr2. m = (Inr a, tr1) \<and> f a = (Inr b, tr2) \<and> tr = tr1 @ tr2)"
  by (auto simp: then_io_def split: prod.splits sum.splits)

lemma then_io_InrE:
  assumes "then_io m f = (Inr b, tr)"
  obtains a tr1 tr2 where "m = (Inr a, tr1)" "f a = (Inr b, tr2)" "tr = tr1 @ tr2"
  using assms unfolding then_io_Inr by blast

lemma then_io_Inl:
  "then_io m f = (Inl e, tr) \<longleftrightarrow>
     (m = (Inl e, tr) \<or> (\<exists>a tr1 tr2. m = (Inr a, tr1) \<and> f a = (Inl e, tr2) \<and> tr = tr1 @ tr2))"
  by (auto simp: then_io_def split: prod.splits sum.splits)

lemma call_Inr: "call ev res = (Inr u, tr) \<longleftrightarrow> res = None \<and> tr = [ev]"
  by (auto simp: call_def split: option.splits)

lemma call_val_Inr: "call_val ev res = (Inr a, tr) \<longleftrightarrow> res = Inr a \<and> tr = [ev]"
  by (auto simp: call_val_def split: sum.splits)

lemma ret_Inr: "ret a = (Inr b, tr) \<longleftrightarrow> a = b \<and> tr = []"
  by (auto simp: ret_def)

lemma fail_Inr: "fail e \<noteq> (Inr b, tr)"
  by (simp add: fail_def)

lemmas io_Inr = then_io_Inr call_Inr call_val_Inr ret_Inr fail_Inr

lemma xl_reader_Skip:
  assumes "xl_reader xlr sheet xl quote skip = (Inr rdr, tr)"
  shows "Skip rdr = skip \<and> TableSpec rdr = NewTableDef [] MergeTree []"
proof (cases "length xl < 4")
  case True
  with assms show ?thesis by (simp add: xl_reader_def fail_def)
next
  case False
  with assms show ?thesis by (auto simp: xl_reader_def ret_def new_reader_def Skip.simps)
qed

lemma newFile_Skip:
  assumes "newFile rv w source sType quote skip xl xlSheet = (Inr rdr, tr)"
  shows "Skip rdr = skip \<and> TableSpec rdr = NewTableDef [] MergeTree []"
proof -
  from assms obtain u tr1 tr2 where
    r: "(if sType = ''text'' \<or> sType = ''csv''
       then ret (new_reader (FileNewReader source (sep sType) (CHR 0x0A) quote 0 skip 0))
       else if sType = ''xlsx'' \<or> sType = ''xls''
       then
         then_io
           (if sType = ''xls''
            then
              then_io
                (let c = (if rv = TochGo
                          then [''bash'', ''-c'',
                                ''libreoffice --headless --convert-to xlsx -outdir /tmp/ '' @ source]
                          else [''libreoffice'', ''--headless'', ''--convert-to'', ''xlsx'',
                                ''--outdir'', getDir source, source])
                 in call (EvRun c) (w_run w c))
                (\<lambda>_. ret (Replace source ''.xls'' ''.xlsx'' 1))
            else ret source)
           (\<lambda>source.
              then_io (call (EvXlOpenFile source) (w_xlOpenFile w source)) (\<lambda>_.
                xl_reader (OpenedFile source) xlSheet xl quote skip))
       else fail (Err ''illegal -type'')) = (Inr rdr, tr2)"
    unfolding newFile_def then_io_Inr by blast
  show ?thesis
  proof (cases "sType = ''text'' \<or> sType = ''csv''")
    case True
    with r show ?thesis by (auto simp: ret_def new_reader_def Skip.simps)
  next
    case False
    show ?thesis
    proof (cases "sType = ''xlsx'' \<or> sType = ''xls''")
      case True
      with r False obtain src tr5 where
        "xl_reader (OpenedFile src) xlSheet xl quote skip = (Inr rdr, tr5)"
        by (simp add: then_io_Inr) blast
      then show ?thesis by (rule xl_reader_Skip)
    next
      case False
      with r \<open>\<not> (sType = ''text'' \<or> sType = ''csv'')\<close> show ?thesis
        by (simp add: fail_Inr)
    qed
  qed
qed

lemma newHttp_Skip:
  assumes "newHttp rv w source sType quote skip xl xlSheet = (Inr rdr, tr)"
  shows "Skip rdr = skip \<and> TableSpec rdr = NewTableDef [] MergeTree []"
proof -
  from assms obtain body tr1 tr2 where
    r: "(if sType = ''text'' \<or> sType = ''csv''
       then ret (new_reader (StrNewReader body (sep sType) (CHR 0x0A) quote 0 skip 0))
       else if sType = ''xlsx''
       then
         then_io (call EvXlOpenReader (w_xlOpenReader w body)) (\<lambda>_.
           xl_reader (OpenedReader body) xlSheet xl quote skip)
       else if sType = ''xls''
       then
         (let fileName = (if rv = TochGo then ''/tmp/test.xls'' else ''/tmp/tmp.xls'')
          in then_io (call (EvOsCreate fileName) (w_create w fileName)) (\<lambda>_.
             then_io (call (EvWrite fileName) (w_write w fileName body)) (\<lambda>_.
             then_io (call (EvClose fileName) (w_close w fileName)) (\<lambda>_.
               newFile rv w fileName ''xls'' quote skip xl xlSheet))))
       else fail (Err ''illegal -type'')) = (Inr rdr, tr2)"
    unfolding newHttp_def then_io_Inr by blast
  show ?thesis
  proof (cases "sType = ''text'' \<or> sType = ''csv''")
    case True
    with r show ?thesis by (auto simp: ret_def new_reader_def Skip.simps)
  next
    case n1: False
    show ?thesis
    proof (cases "sType = ''xlsx''")
      case True
      with r n1 obtain tr3 where
        "xl_reader (OpenedReader body) xlSheet xl quote skip = (Inr rdr, tr3)"
        by (simp add: then_io_Inr) blast
      then show ?thesis by (rule xl_reader_Skip)
    next
      case n2: False
      show ?thesis
      proof (cases "sType = ''xls''")
        case True
        with r n1 n2 obtain fileName tr3 where
          "newFile rv w fileName ''xls'' quote skip xl xlSheet = (Inr rdr, tr3)"
          by (simp add: Let_def then_io_Inr) blast
        then show ?thesis by (rule newFile_Skip)
      next
        case False
        with r n1 n2 show ?thesis by (simp add: fail_Inr)
      qed
    qed
  qed
qed

lemma NewReader_Skip:
  "NewReader rv w source sType quote skip xl xlSheet = (Inr rdr, tr) \<Longrightarrow>
   Skip rdr = skip \<and> TableSpec rdr = NewTableDef [] MergeTree []"
  unfolding NewReader_def
  by (cases "Contains (ToLower source) ''http''") (simp_all add: newHttp_Skip newFile_Skip)

lemma Impute_Inr:
  "Impute w rdr n tol = (Inr spec, tr) \<longleftrightarrow>
     (\<exists>rows. w_rows w rdr = Inr rows \<and>
        spec = (TableSpec rdr)\<lparr>FieldDefs := impute_fields (w_parses w) rows tol (FieldDefs (TableSpec rdr))\<rparr> \<and>
        tr = [EvImpute n tol])"
  by (auto simp: Impute_def io_Inr)

lemma buildReader_Inr:
  assumes "buildReader rv w source sType skip quote camel headers fieldTypes xl xlSheet table
             = (Inr rdr, tr)"
  obtains rdr0 tr0 spec1 tr1 tr2 where
    "NewReader rv w source sType quote (if headers = [] then skip + 1 else skip) xl xlSheet
       = (Inr rdr0, tr0)"
    "headers = [] \<Longrightarrow> \<exists>spec fds key. w_init w rdr0 = Inr spec \<and>
       header_loop rv camel 0 (FieldDefs spec) (Key spec) = Inr (fds, key) \<and>
       spec1 = spec\<lparr>FieldDefs := fds, Key := key\<rparr> \<and> tr1 = [EvInit]"
    "headers \<noteq> [] \<Longrightarrow>
       spec1 = NewTableDef (hd headers) MergeTree (map unknown_field headers) \<and> tr1 = []"
    "fieldTypes = [] \<Longrightarrow> \<exists>rows. w_rows w (rdr0\<lparr>TableSpec := spec1\<rparr>) = Inr rows \<and>
       TableSpec rdr = spec1\<lparr>FieldDefs := impute_fields (w_parses w) rows (95 / 100) (FieldDefs spec1)\<rparr> \<and>
       tr2 = [EvImpute 0 (95 / 100)]"
    "fieldTypes \<noteq> [] \<Longrightarrow> length fieldTypes = length (FieldDefs spec1) \<and>
       TableSpec rdr = spec1\<lparr>FieldDefs := set_types fieldTypes (FieldDefs spec1)\<rparr> \<and> tr2 = []"
    "Built rdr = Built rdr0"
    "w_createTable w (TableSpec rdr) table = None"
    "tr = tr0 @ tr1 @ tr2 @ [EvCreateTable table]"
proof -
  let ?skip = "if headers = [] then skip + 1 else skip"
  from assms obtain rdr0 tr0 rdr1 tr1 rdr2 tr2 where
    n: "NewReader rv w source sType quote ?skip xl xlSheet = (Inr rdr0, tr0)" and
    h: "(if length headers = 0
         then
           then_io (call_val EvInit (w_init w rdr0)) (\<lambda>spec.
             case header_loop rv camel 0 (FieldDefs spec) (Key spec) of
               Inl e \<Rightarrow> fail e
             | Inr (fds, key) \<Rightarrow> ret (rdr0\<lparr>TableSpec := spec\<lparr>FieldDefs := fds, Key := key\<rparr>\<rparr>))
         else
           ret (rdr0\<lparr>TableSpec := NewTableDef (hd headers) MergeTree (map unknown_field headers)\<rparr>))
        = (Inr rdr1, tr1)" and
    t: "(if length fieldTypes = 0
         then then_io (Impute w rdr1 0 (95 / 100)) (\<lambda>spec. ret (rdr1\<lparr>TableSpec := spec\<rparr>))
         else if length fieldTypes \<noteq> length (FieldDefs (TableSpec rdr1))
         then fail (Err (''supplied field types have length '' @ decimal (length fieldTypes)
                         @ '', data has '' @ decimal (length (FieldDefs (TableSpec rdr1)))
                         @ '' columns''))
         else ret (rdr1\<lparr>TableSpec := (TableSpec rdr1)
                         \<lparr>FieldDefs := set_types fieldTypes (FieldDefs (TableSpec rdr1))\<rparr>\<rparr>))
        = (Inr rdr2, tr2)" and
    c: "w_createTable w (TableSpec rdr2) table = None" and
    r: "rdr = rdr2" and tr: "tr = tr0 @ tr1 @ tr2 @ [EvCreateTable table]"
    unfolding buildReader_def Let_def then_io_Inr call_Inr ret_Inr
    by (auto simp: length_0_conv)
  have h1: "headers = [] \<Longrightarrow> \<exists>spec fds key. w_init w rdr0 = Inr spec \<and>
       header_loop rv camel 0 (FieldDefs spec) (Key spec) = Inr (fds, key) \<and>
       rdr1 = rdr0\<lparr>TableSpec := spec\<lparr>FieldDefs := fds, Key := key\<rparr>\<rparr> \<and> tr1 = [EvInit]"
  proof -
    assume "headers = []"
    with h obtain spec tr' where i: "w_init w rdr0 = Inr spec" and
      l: "(case header_loop rv camel 0 (FieldDefs spec) (Key spec) of
               Inl e \<Rightarrow> fail e
             | Inr (fds, key) \<Rightarrow> ret (rdr0\<lparr>TableSpec := spec\<lparr>FieldDefs := fds, Key := key\<rparr>\<rparr>))
           = (Inr rdr1, tr')" and tr1: "tr1 = [EvInit] @ tr'"
      by (auto simp: io_Inr)
    show ?thesis
    proof (cases "header_loop rv camel 0 (FieldDefs spec) (Key spec)")
      case (Inl e)
      with l show ?thesis by (simp add: fail_def)
    next
      case (Inr p)
      obtain fds key where p: "p = (fds, key)" by (cases p)
      from l Inr p have "rdr1 = rdr0\<lparr>TableSpec := spec\<lparr>FieldDefs := fds, Key := key\<rparr>\<rparr>" "tr' = []"
        by (auto simp: ret_def)
      with i Inr p tr1 show ?thesis by auto
    qed
  qed
  have h2: "headers \<noteq> [] \<Longrightarrow>
       rdr1 = rdr0\<lparr>TableSpec := NewTableDef (hd headers) MergeTree (map unknown_field headers)\<rparr> \<and> tr1 = []"
    using h by (auto simp: io_Inr)
  have b1: "Built rdr1 = Built rdr0" and s1: "rdr1 = rdr0\<lparr>TableSpec := TableSpec rdr1\<rparr>"
    using h1 h2 by (cases "headers = []"; auto)+
  have t1: "fieldTypes = [] \<Longrightarrow> \<exists>rows. w_rows w rdr1 = Inr rows \<and>
       rdr2 = rdr1\<lparr>TableSpec := (TableSpec rdr1)\<lparr>FieldDefs := impute_fields (w_parses w) rows (95 / 100) (FieldDefs (TableSpec rdr1))\<rparr>\<rparr> \<and>
       tr2 = [EvImpute 0 (95 / 100)]"
    using t by (auto simp: io_Inr Impute_Inr)
  have t2: "fieldTypes \<noteq> [] \<Longrightarrow> length fieldTypes = length (FieldDefs (TableSpec rdr1)) \<and>
       rdr2 = rdr1\<lparr>TableSpec := (TableSpec rdr1)\<lparr>FieldDefs := set_types fieldTypes (FieldDefs (TableSpec rdr1))\<rparr>\<rparr> \<and> tr2 = []"
    using t by (auto simp: io_Inr split: if_splits)
  have b2: "Built rdr2 = Built rdr1"
    using t1 t2 by (cases "fieldTypes = []"; auto)
  show ?thesis
  proof (rule that [of rdr0 tr0 "TableSpec rdr1" tr1 tr2])
    show "NewReader rv w source sType quote ?skip xl xlSheet = (Inr rdr0, tr0)" by (rule n)
    show "\<exists>spec fds key. w_init w rdr0 = Inr spec \<and>
       header_loop rv camel 0 (FieldDefs spec) (Key spec) = Inr (fds, key) \<and>
       TableSpec rdr1 = spec\<lparr>FieldDefs := fds, Key := key\<rparr> \<and> tr1 = [EvInit]" if "headers = []"
      using h1 [OF that] by auto
    show "TableSpec rdr1 = NewTableDef (hd headers) MergeTree (map unknown_field headers) \<and> tr1 = []"
      if "headers \<noteq> []"
      using h2 [OF that] by auto
    show "\<exists>rows. w_rows w (rdr0\<lparr>TableSpec := TableSpec rdr1\<rparr>) = Inr rows \<and>
       TableSpec rdr = (TableSpec rdr1)\<lparr>FieldDefs := impute_fields (w_parses w) rows (95 / 100) (FieldDefs (TableSpec rdr1))\<rparr> \<and>
       tr2 = [EvImpute 0 (95 / 100)]" if "fieldTypes = []"
      using t1 [OF that] s1 r by auto
    show "length fieldTypes = length (FieldDefs (TableSpec rdr1)) \<and>
       TableSpec rdr = (TableSpec rdr1)\<lparr>FieldDefs := set_types fieldTypes (FieldDefs (TableSpec rdr1))\<rparr> \<and> tr2 = []"
      if "fieldTypes \<noteq> []"
      using t2 [OF that] r by auto
    show "Built rdr = Built rdr0" using b1 b2 r by simp
    show "w_createTable w (TableSpec rdr) table = None" using c r by simp
    show "tr = tr0 @ tr1 @ tr2 @ [EvCreateTable table]" by (rule tr)
  qed
qed

text \<open>The definitions that a run on concrete input unfolds.\<close>

lemmas io_eval = then_io_def call_def call_val_def ret_def fail_def
lemmas reader_eval = NewReader_def newFile_def newHttp_def xl_reader_def new_reader_def sep_def
  prefix_code
lemmas schema_eval = header_field_def reserved_def toCamel_def set_types_def set_type_def
  NewTableDef_def unknown_field_def upt_rec [of 0] upt_rec [of 1] upt_rec [of 2] upt_rec [of 3]
  upt_rec [of 4]
lemmas impute_eval = Impute_def impute_fields_def impute_type_def meets_def nonempty_cells_def
  parsed_cells_def column_def
lemmas export_eval = Export_def batches.simps
lemmas world_eval = example_world_def rejecting_world_def example_rows_def example_parses_def
lemmas run_eval = main_def buildReader_def io_eval reader_eval schema_eval impute_eval export_eval
  world_eval flags_def run_flags_def defaults_def types_def ctypes_def ftypes_def
  ParseInt_def digit_val_def ReplaceAll_def Replace_def numeral_2_eq_2 byte_eval

lemmas build_eval = buildReader_def io_eval reader_eval schema_eval world_eval byte_eval

subsection \<open>The skip count\<close>

lemma sint_succ:
  assumes "sint (x :: 64 word) < MaxInt64"
  shows "sint (x + 1) = sint x + 1"
proof -
  have lo: "- (2 ^ 63) \<le> sint x" using sint_ge [of x] by simp
  have "sint (x + 1) = signed_take_bit 63 (sint x + 1)"
    by (simp add: sint_word_ariths)
  also have "\<dots> = sint x + 1"
    using assms lo by (intro signed_take_bit_int_eq_self) (auto simp: MaxInt64_def)
  finally show ?thesis .
qed

lemma Skip_Built: "Built r = Built r' \<Longrightarrow> Skip r = Skip r'"
  by (simp add: Skip.simps)

text \<open>
  Claim C7. \<^verbatim>\<open>buildReader\<close> makes the reader with the caller's skip count plus one when no
  header names are supplied, so that the header row is not among the rows of data, and
  with the caller's skip count as it is when header names are supplied. The count is a Go
  \<^verbatim>\<open>int\<close>: the sum is that of the machine, and it is the sum of the integers for every
  count below the largest \<^verbatim>\<open>int\<close>. The claim as it is written, an increment by exactly one
  for every count of the caller, fails at the largest \<^verbatim>\<open>int\<close>, which the command line
  accepts: the counterexample below has the reader made with the smallest \<^verbatim>\<open>int\<close>.
\<close>

theorem header_row_skipped:
  assumes "buildReader rv w source sType skip quote camel headers fieldTypes xl xlSheet table
             = (Inr rdr, tr)"
  shows "Skip rdr = (if headers = [] then skip + 1 else skip) \<and>
     (headers = [] \<and> sint skip < MaxInt64 \<longrightarrow> sint (Skip rdr) = sint skip + 1)"
proof -
  from assms obtain rdr0 tr0 where
    n: "NewReader rv w source sType quote (if headers = [] then skip + 1 else skip) xl xlSheet
       = (Inr rdr0, tr0)" and b: "Built rdr = Built rdr0"
    by (rule buildReader_Inr)
  have "Skip rdr0 = (if headers = [] then skip + 1 else skip)"
    using NewReader_Skip [OF n] by simp
  then have s: "Skip rdr = (if headers = [] then skip + 1 else skip)"
    using Skip_Built [OF b] by simp
  then show ?thesis by (auto simp: sint_succ)
qed

theorem header_row_skipped_witness:
  "\<exists>rdr tr rdr' tr'.
     buildReader TochGo example_world ''data.csv'' ''csv'' 2 (CHR 0x22) False
       [] [''i'', ''f'', ''s''] [0, 0, 0, 0] [] ''t'' = (Inr rdr, tr) \<and>
     sint (2 :: goint) < MaxInt64 \<and> Skip rdr = 3 \<and> sint (Skip rdr) = 3 \<and>
     buildReader TochGo example_world ''data.csv'' ''csv'' 2 (CHR 0x22) False
       [''a'', ''b'', ''c''] [''i'', ''f'', ''s''] [0, 0, 0, 0] [] ''t'' = (Inr rdr', tr') \<and>
     Skip rdr' = 2"
proof -
  obtain R T where e: "buildReader TochGo example_world ''data.csv'' ''csv'' 2 (CHR 0x22) False
       [] [''i'', ''f'', ''s''] [0, 0, 0, 0] [] ''t'' = (Inr R, T)"
    by (simp add: build_eval)
  obtain R' T' where e': "buildReader TochGo example_world ''data.csv'' ''csv'' 2 (CHR 0x22) False
       [''a'', ''b'', ''c''] [''i'', ''f'', ''s''] [0, 0, 0, 0] [] ''t'' = (Inr R', T')"
    by (simp add: build_eval)
  have m: "sint (2 :: goint) < MaxInt64" by (simp add: MaxInt64_def)
  from header_row_skipped [OF e] header_row_skipped [OF e'] m
  have "Skip R = 3 \<and> sint (Skip R) = 3 \<and> Skip R' = 2" by simp
  with e e' m show ?thesis by blast
qed

theorem header_row_skip_wraps_counterexample:
  "\<exists>fl rdr tr.
     run_flags TochGo (defaults\<lparr>a_table := ''t'', a_type := ''csv'', a_s := ''data.csv'',
        a_t := ''i,f,s'', a_skip := 9223372036854775807\<rparr>) = Inr fl \<and>
     f_headers fl = [] \<and>
     buildReader TochGo example_world ''data.csv'' (f_sType fl) 9223372036854775807 (f_quote fl)
       (f_camel fl) (f_headers fl) (f_fieldTypes fl) (f_xlArea fl) [] ''t'' = (Inr rdr, tr) \<and>
     sint (9223372036854775807 :: goint) + 1 = 9223372036854775808 \<and>
     sint (Skip rdr) = - 9223372036854775808"
proof -
  let ?fl = "\<lparr>f_sType = ''csv'', f_headers = [], f_fieldTypes = [''i'', ''f'', ''s''],
            f_camel = False, f_ignore = None, f_quote = CHR 0x22, f_xlArea = [0, 0, 0, 0]\<rparr>"
  have f: "run_flags TochGo (defaults\<lparr>a_table := ''t'', a_type := ''csv'', a_s := ''data.csv'',
        a_t := ''i,f,s'', a_skip := 9223372036854775807\<rparr>) = Inr ?fl"
    by (simp add: flag_eval)
  obtain R T where e: "buildReader TochGo example_world ''data.csv'' ''csv'' 9223372036854775807
       (CHR 0x22) False [] [''i'', ''f'', ''s''] [0, 0, 0, 0] [] ''t'' = (Inr R, T)"
    by (simp add: build_eval)
  from e obtain rdr0 tr0 where
    n: "NewReader TochGo example_world ''data.csv'' ''csv'' (CHR 0x22)
          (if ([] :: string list) = [] then 9223372036854775807 + 1 else 9223372036854775807)
          [0, 0, 0, 0] [] = (Inr rdr0, tr0)" and b: "Built R = Built rdr0"
    by (rule buildReader_Inr)
  have "Skip rdr0 = 9223372036854775807 + 1"
    using NewReader_Skip [OF n] by simp
  then have s: "Skip R = 9223372036854775807 + 1"
    using Skip_Built [OF b] by simp
  have w: "sint (9223372036854775807 + 1 :: goint) = - 9223372036854775808" by simp
  have m: "sint (9223372036854775807 :: goint) + 1 = 9223372036854775808" by simp
  show ?thesis
    apply (rule exI [of _ ?fl], rule exI [of _ R], rule exI [of _ T])
    using f e s w m by simp
qed

subsection \<open>Supplied field types\<close>

lemma set_types_length: "length (set_types ts fds) = length fds"
  by (simp add: set_types_def)

lemma set_types_nth:
  "i < length fds \<Longrightarrow> set_types ts fds ! i = set_type (ts ! i) (fds ! i)"
  by (simp add: set_types_def)

lemma set_type_Name: "Name (set_type t fd) = Name fd"
  by (simp add: set_type_def)

lemma set_types_names: "map Name (set_types ts fds) = map Name fds"
  by (rule nth_equalityI) (simp_all add: set_types_length set_types_nth set_type_Name)

text \<open>
  Claim C1. When field types are supplied and \<^verbatim>\<open>buildReader\<close> returns a reader, the table
  has one column for each supplied type, and the column of index \<open>i\<close> has the type and the
  value for illegal input of the \<open>i\<close>-th token: \<open>f\<close> gives Float64 (the base type
  \<^verbatim>\<open>ChFloat\<close> with length 64) and \<^verbatim>\<open>math.MaxFloat64\<close>, \<open>i\<close> gives Int64 (\<^verbatim>\<open>ChInt\<close> with
  length 64) and \<^verbatim>\<open>math.MaxInt64\<close>, \<open>d\<close> gives Date and midnight of 1970-01-01 in UTC, and any
  other token (\<open>s\<close> is the one that \<^verbatim>\<open>flags\<close> lets through) gives String and \<open>!\<close>. The
  names of supplied headers stay in their order.
\<close>

theorem supplied_types_assigned:
  assumes "buildReader rv w source sType skip quote camel headers fieldTypes xl xlSheet table
             = (Inr rdr, tr)"
    and "fieldTypes \<noteq> []"
  shows "length (FieldDefs (TableSpec rdr)) = length fieldTypes \<and>
    (\<forall>i < length fieldTypes.
       (fieldTypes ! i = ''f'' \<longrightarrow>
          Base (ChSpec (FieldDefs (TableSpec rdr) ! i)) = ChFloat \<and>
          Length (ChSpec (FieldDefs (TableSpec rdr) ! i)) = 64 \<and>
          Missing (FieldDefs (TableSpec rdr) ! i) = VFloat MaxFloat64) \<and>
       (fieldTypes ! i = ''i'' \<longrightarrow>
          Base (ChSpec (FieldDefs (TableSpec rdr) ! i)) = ChInt \<and>
          Length (ChSpec (FieldDefs (TableSpec rdr) ! i)) = 64 \<and>
          Missing (FieldDefs (TableSpec rdr) ! i) = VInt 9223372036854775807) \<and>
       (fieldTypes ! i = ''d'' \<longrightarrow>
          Base (ChSpec (FieldDefs (TableSpec rdr) ! i)) = ChDate \<and>
          Missing (FieldDefs (TableSpec rdr) ! i) = VTime 1970 1 1 0 0 0 0) \<and>
       (fieldTypes ! i \<notin> {''f'', ''i'', ''d''} \<longrightarrow>
          Base (ChSpec (FieldDefs (TableSpec rdr) ! i)) = ChString \<and>
          Missing (FieldDefs (TableSpec rdr) ! i) = VString ''!'')) \<and>
    (headers \<noteq> [] \<longrightarrow> map Name (FieldDefs (TableSpec rdr)) = headers)"
proof -
  from assms(1) obtain spec1 where
    h: "headers \<noteq> [] \<Longrightarrow>
       spec1 = NewTableDef (hd headers) MergeTree (map unknown_field headers)" and
    t: "fieldTypes \<noteq> [] \<Longrightarrow> length fieldTypes = length (FieldDefs spec1) \<and>
       TableSpec rdr = spec1\<lparr>FieldDefs := set_types fieldTypes (FieldDefs spec1)\<rparr>"
    by (rule buildReader_Inr) blast
  from t [OF assms(2)] have len: "length fieldTypes = length (FieldDefs spec1)"
    and fds: "FieldDefs (TableSpec rdr) = set_types fieldTypes (FieldDefs spec1)"
    by simp_all
  have nth: "FieldDefs (TableSpec rdr) ! i = set_type (fieldTypes ! i) (FieldDefs spec1 ! i)"
    if "i < length fieldTypes" for i
    using that len by (simp add: fds set_types_nth)
  have names: "map Name (FieldDefs (TableSpec rdr)) = headers" if "headers \<noteq> []"
    using h [OF that] by (simp add: fds set_types_names NewTableDef_def unknown_field_def comp_def)
  show ?thesis
    using len names by (auto simp: fds set_types_length set_types_nth set_type_def MaxInt64_def)
qed

theorem supplied_types_assigned_witness:
  "\<exists>rdr tr.
     buildReader Part000 example_world ''data.csv'' ''csv'' 0 (CHR 0x22) False
       [''a'', ''b'', ''c'', ''d''] [''f'', ''i'', ''d'', ''s''] [0, 0, 0, 0] [] ''t'' = (Inr rdr, tr) \<and>
     [''f'', ''i'', ''d'', ''s''] \<noteq> [] \<and>
     length (FieldDefs (TableSpec rdr)) = 4 \<and>
     map Name (FieldDefs (TableSpec rdr)) = [''a'', ''b'', ''c'', ''d''] \<and>
     Base (ChSpec (FieldDefs (TableSpec rdr) ! 0)) = ChFloat \<and>
     Length (ChSpec (FieldDefs (TableSpec rdr) ! 0)) = 64 \<and>
     Missing (FieldDefs (TableSpec rdr) ! 0) = VFloat MaxFloat64 \<and>
     Base (ChSpec (FieldDefs (TableSpec rdr) ! 1)) = ChInt \<and>
     Length (ChSpec (FieldDefs (TableSpec rdr) ! 1)) = 64 \<and>
     Missing (FieldDefs (TableSpec rdr) ! 1) = VInt 9223372036854775807 \<and>
     Base (ChSpec (FieldDefs (TableSpec rdr) ! 2)) = ChDate \<and>
     Missing (FieldDefs (TableSpec rdr) ! 2) = VTime 1970 1 1 0 0 0 0 \<and>
     Base (ChSpec (FieldDefs (TableSpec rdr) ! 3)) = ChString \<and>
     Missing (FieldDefs (TableSpec rdr) ! 3) = VString ''!''"
proof -
  obtain R T where e: "buildReader Part000 example_world ''data.csv'' ''csv'' 0 (CHR 0x22) False
       [''a'', ''b'', ''c'', ''d''] [''f'', ''i'', ''d'', ''s''] [0, 0, 0, 0] [] ''t'' = (Inr R, T)"
    by (simp add: build_eval)
  have ne: "[''f'', ''i'', ''d'', ''s''] \<noteq> ([] :: string list)" by simp
  note t = supplied_types_assigned [OF e ne]
  from t have len: "length (FieldDefs (TableSpec R)) = 4"
    and names: "map Name (FieldDefs (TableSpec R)) = [''a'', ''b'', ''c'', ''d'']"
    by simp_all
  from t have c0: "Base (ChSpec (FieldDefs (TableSpec R) ! 0)) = ChFloat \<and>
      Length (ChSpec (FieldDefs (TableSpec R) ! 0)) = 64 \<and>
      Missing (FieldDefs (TableSpec R) ! 0) = VFloat MaxFloat64"
    by (elim conjE allE [of _ 0]) simp
  from t have c1: "Base (ChSpec (FieldDefs (TableSpec R) ! 1)) = ChInt \<and>
      Length (ChSpec (FieldDefs (TableSpec R) ! 1)) = 64 \<and>
      Missing (FieldDefs (TableSpec R) ! 1) = VInt 9223372036854775807"
    by (elim conjE allE [of _ 1]) simp
  from t have c2: "Base (ChSpec (FieldDefs (TableSpec R) ! 2)) = ChDate \<and>
      Missing (FieldDefs (TableSpec R) ! 2) = VTime 1970 1 1 0 0 0 0"
    by (elim conjE allE [of _ 2]) simp
  from t have c3: "Base (ChSpec (FieldDefs (TableSpec R) ! 3)) = ChString \<and>
      Missing (FieldDefs (TableSpec R) ! 3) = VString ''!''"
    by (elim conjE allE [of _ 3]) simp
  show ?thesis
    apply (rule exI [of _ R], rule exI [of _ T])
    using e len names c0 c1 c2 c3 by simp
qed

subsection \<open>Names read from the header row\<close>

lemma isIn_reserved:
  "isIn rv name reserved (rv = TochGo) =
     (ToLower name = ''index'', if rv = TochGo then ToLower name else name)"
  by (cases rv) (auto simp: reserved_def Let_def)

lemma header_field_Inr:
  assumes "header_field rv camel fd = Inr fd'"
  shows "\<exists>name. (if camel then toCamel rv (Name fd) else Inr (Name fd)) = Inr name \<and>
     Name fd' = (if rv = TochGo then ToLower name else name)
                  @ (if ToLower name = ''index'' then ''1'' else [])"
proof (cases "if camel then toCamel rv (Name fd) else Inr (Name fd)")
  case (Inl e)
  with assms show ?thesis by (simp add: header_field_def)
next
  case (Inr name)
  with assms have "Name fd' = (if rv = TochGo then ToLower name else name)
                  @ (if ToLower name = ''index'' then ''1'' else [])"
    unfolding header_field_def isIn_reserved by (auto split: if_splits)
  with Inr show ?thesis by blast
qed

lemma header_loop_Inr:
  "header_loop rv camel ind fds key = Inr (fds', key') \<Longrightarrow>
     length fds' = length fds \<and>
     (\<forall>i < length fds. header_field rv camel (fds ! i) = Inr (fds' ! i)) \<and>
     key' = (if ind = 0 \<and> fds \<noteq> [] then Name (fds' ! 0) else key)"
proof (induction fds arbitrary: ind key fds' key')
  case Nil
  then show ?case by simp
next
  case (Cons fd fds)
  from Cons.prems obtain fd1 fds1 where
    f: "header_field rv camel fd = Inr fd1" and
    l: "header_loop rv camel (ind + 1) fds (if ind = 0 then Name fd1 else key) = Inr (fds1, key')" and
    r: "fds' = fd1 # fds1"
    by (auto split: sum.splits prod.splits)
  from Cons.IH [OF l] have
    len: "length fds1 = length fds" and
    nth: "\<forall>i < length fds. header_field rv camel (fds ! i) = Inr (fds1 ! i)" and
    key: "key' = (if ind = 0 then Name fd1 else key)"
    by simp_all
  show ?case
    using f len nth key by (auto simp: r nth_Cons split: nat.splits)
qed

lemma impute_fields_length: "length (impute_fields parses rows tol fds) = length fds"
  by (simp add: impute_fields_def)

lemma impute_fields_names: "map Name (impute_fields parses rows tol fds) = map Name fds"
  by (rule nth_equalityI) (simp_all add: impute_fields_def)

text \<open>
  The schema that \<^verbatim>\<open>buildReader\<close> returns when it reads the header row: the fields are
  those that the loop over the header leaves, with their types set, and the key is the one
  that the loop leaves.
\<close>

lemma buildReader_header_schema:
  assumes "buildReader rv w source sType skip quote camel [] fieldTypes xl xlSheet table
             = (Inr rdr, tr)"
  obtains rdr0 tr0 spec fds key where
    "NewReader rv w source sType quote (skip + 1) xl xlSheet = (Inr rdr0, tr0)"
    "w_init w rdr0 = Inr spec"
    "header_loop rv camel 0 (FieldDefs spec) (Key spec) = Inr (fds, key)"
    "map Name (FieldDefs (TableSpec rdr)) = map Name fds"
    "Key (TableSpec rdr) = key"
proof (rule buildReader_Inr [OF assms])
  fix rdr0 tr0 spec1 tr1 tr2
  assume n: "NewReader rv w source sType quote (if ([] :: string list) = [] then skip + 1 else skip)
          xl xlSheet = (Inr rdr0, tr0)"
    and h: "([] :: string list) = [] \<Longrightarrow> \<exists>spec fds key. w_init w rdr0 = Inr spec \<and>
       header_loop rv camel 0 (FieldDefs spec) (Key spec) = Inr (fds, key) \<and>
       spec1 = spec\<lparr>FieldDefs := fds, Key := key\<rparr> \<and> tr1 = [EvInit]"
    and t0: "fieldTypes = [] \<Longrightarrow> \<exists>rows. w_rows w (rdr0\<lparr>TableSpec := spec1\<rparr>) = Inr rows \<and>
       TableSpec rdr = spec1\<lparr>FieldDefs := impute_fields (w_parses w) rows (95 / 100) (FieldDefs spec1)\<rparr> \<and>
       tr2 = [EvImpute 0 (95 / 100)]"
    and t1: "fieldTypes \<noteq> [] \<Longrightarrow> length fieldTypes = length (FieldDefs spec1) \<and>
       TableSpec rdr = spec1\<lparr>FieldDefs := set_types fieldTypes (FieldDefs spec1)\<rparr> \<and> tr2 = []"
  from h obtain spec fds key where
    i: "w_init w rdr0 = Inr spec" and
    l: "header_loop rv camel 0 (FieldDefs spec) (Key spec) = Inr (fds, key)" and
    s: "spec1 = spec\<lparr>FieldDefs := fds, Key := key\<rparr>"
    by blast
  have "map Name (FieldDefs (TableSpec rdr)) = map Name fds \<and> Key (TableSpec rdr) = key"
  proof (cases "fieldTypes = []")
    case True
    from t0 [OF True] show ?thesis by (auto simp: s impute_fields_names)
  next
    case False
    from t1 [OF False] show ?thesis by (auto simp: s set_types_names)
  qed
  with n i l show thesis by (intro that [of rdr0 tr0 spec fds key]) simp_all
qed

text \<open>
  Claim C6. When \<^verbatim>\<open>buildReader\<close> reads the names from the header row and returns a reader,
  the schema of that reader has one field for each field of the header. For a header of
  ASCII names (see the case mappings above), the name of each field is the name of the
  header, converted when \<open>camel\<close> is set (and lower-cased in \<^verbatim>\<open>toch.go\<close>, where \<^verbatim>\<open>isIn\<close>
  overwrites it), with the suffix \<open>1\<close> exactly when the look-up in \<open>reserved\<close> succeeds, which
  is when the lower-cased name is \<open>index\<close>. When the header has a first field, the key of
  the schema is the final name of that field, and so the name of a field of the schema.
\<close>

theorem reserved_names_and_key:
  assumes "buildReader rv w source sType skip quote camel [] fieldTypes xl xlSheet table
             = (Inr rdr, tr)"
  shows "\<exists>rdr0 tr0 spec.
     NewReader rv w source sType quote (skip + 1) xl xlSheet = (Inr rdr0, tr0) \<and>
     w_init w rdr0 = Inr spec \<and>
     (list_all (\<lambda>fd. ascii (Name fd)) (FieldDefs spec) \<longrightarrow>
        length (FieldDefs (TableSpec rdr)) = length (FieldDefs spec) \<and>
        (\<forall>i < length (FieldDefs spec). \<exists>name.
           (if camel then toCamel rv (Name (FieldDefs spec ! i))
            else Inr (Name (FieldDefs spec ! i))) = Inr name \<and>
           fst (isIn rv name reserved (rv = TochGo)) = (ToLower name = ''index'') \<and>
           Name (FieldDefs (TableSpec rdr) ! i) =
             (if rv = TochGo then ToLower name else name)
               @ (if fst (isIn rv name reserved (rv = TochGo)) then ''1'' else [])) \<and>
        (FieldDefs spec \<noteq> [] \<longrightarrow>
           Key (TableSpec rdr) = Name (FieldDefs (TableSpec rdr) ! 0) \<and>
           Key (TableSpec rdr) \<in> set (map Name (FieldDefs (TableSpec rdr)))))"
proof -
  from assms obtain rdr0 tr0 spec fds key where
    n: "NewReader rv w source sType quote (skip + 1) xl xlSheet = (Inr rdr0, tr0)" and
    i: "w_init w rdr0 = Inr spec" and
    l: "header_loop rv camel 0 (FieldDefs spec) (Key spec) = Inr (fds, key)" and
    names: "map Name (FieldDefs (TableSpec rdr)) = map Name fds" and
    k: "Key (TableSpec rdr) = key"
    by (rule buildReader_header_schema)
  from header_loop_Inr [OF l] have
    len: "length fds = length (FieldDefs spec)" and
    nth: "\<forall>i < length (FieldDefs spec). header_field rv camel (FieldDefs spec ! i) = Inr (fds ! i)" and
    key: "FieldDefs spec \<noteq> [] \<longrightarrow> key = Name (fds ! 0)"
    by simp_all
  from names have len': "length (FieldDefs (TableSpec rdr)) = length fds"
    by (rule map_eq_imp_length_eq)
  have nm: "Name (FieldDefs (TableSpec rdr) ! j) = Name (fds ! j)" if "j < length fds" for j
  proof -
    have "Name (FieldDefs (TableSpec rdr) ! j) = map Name (FieldDefs (TableSpec rdr)) ! j"
      using that len' by simp
    also have "\<dots> = Name (fds ! j)" using that by (simp add: names)
    finally show ?thesis .
  qed
  have a: "length (FieldDefs (TableSpec rdr)) = length (FieldDefs spec)"
    using len len' by simp
  have b: "\<forall>i < length (FieldDefs spec). \<exists>name.
           (if camel then toCamel rv (Name (FieldDefs spec ! i))
            else Inr (Name (FieldDefs spec ! i))) = Inr name \<and>
           fst (isIn rv name reserved (rv = TochGo)) = (ToLower name = ''index'') \<and>
           Name (FieldDefs (TableSpec rdr) ! i) =
             (if rv = TochGo then ToLower name else name)
               @ (if fst (isIn rv name reserved (rv = TochGo)) then ''1'' else [])"
  proof (intro allI impI)
    fix j assume j: "j < length (FieldDefs spec)"
    with nth have "header_field rv camel (FieldDefs spec ! j) = Inr (fds ! j)" by simp
    from header_field_Inr [OF this] obtain name where
      c: "(if camel then toCamel rv (Name (FieldDefs spec ! j))
            else Inr (Name (FieldDefs spec ! j))) = Inr name" and
      d: "Name (fds ! j) = (if rv = TochGo then ToLower name else name)
                  @ (if ToLower name = ''index'' then ''1'' else [])"
      by blast
    have "Name (FieldDefs (TableSpec rdr) ! j) = Name (fds ! j)" using j len by (simp add: nm)
    with c d show "\<exists>name.
           (if camel then toCamel rv (Name (FieldDefs spec ! j))
            else Inr (Name (FieldDefs spec ! j))) = Inr name \<and>
           fst (isIn rv name reserved (rv = TochGo)) = (ToLower name = ''index'') \<and>
           Name (FieldDefs (TableSpec rdr) ! j) =
             (if rv = TochGo then ToLower name else name)
               @ (if fst (isIn rv name reserved (rv = TochGo)) then ''1'' else [])"
      by (intro exI [of _ name]) (simp add: isIn_reserved)
  qed
  have c: "Key (TableSpec rdr) = Name (FieldDefs (TableSpec rdr) ! 0) \<and>
           Key (TableSpec rdr) \<in> set (map Name (FieldDefs (TableSpec rdr)))"
    if ne: "FieldDefs spec \<noteq> []"
  proof -
    from ne len have 0: "0 < length fds" by (cases fds) auto
    from key ne k have "Key (TableSpec rdr) = Name (fds ! 0)" by simp
    with nm [OF 0] have e: "Key (TableSpec rdr) = Name (FieldDefs (TableSpec rdr) ! 0)" by simp
    from 0 len' have "FieldDefs (TableSpec rdr) \<noteq> []" by auto
    then have "Name (FieldDefs (TableSpec rdr) ! 0) \<in> set (map Name (FieldDefs (TableSpec rdr)))"
      by (cases "FieldDefs (TableSpec rdr)") simp_all
    with e show ?thesis by simp
  qed
  from n i a b c show ?thesis by blast
qed

theorem reserved_names_and_key_witness:
  "\<exists>rdr tr.
     buildReader TochGo example_world ''data.csv'' ''csv'' 0 (CHR 0x22) True
       [] [''i'', ''f'', ''s''] [0, 0, 0, 0] [] ''t'' = (Inr rdr, tr) \<and>
     list_all (\<lambda>fd. ascii (Name fd))
       [unknown_field ''Index'', unknown_field ''Unit price'', unknown_field ''item''] \<and>
     length (FieldDefs (TableSpec rdr)) = 3 \<and>
     Name (FieldDefs (TableSpec rdr) ! 0) = ''index1'' \<and>
     Name (FieldDefs (TableSpec rdr) ! 1) = ''unitprice'' \<and>
     Name (FieldDefs (TableSpec rdr) ! 2) = ''item'' \<and>
     Key (TableSpec rdr) = ''index1'' \<and>
     Key (TableSpec rdr) \<in> set (map Name (FieldDefs (TableSpec rdr)))"
proof -
  have t: "toCamel TochGo ''Index'' = Inr ''index''"
    "toCamel TochGo ''Unit price'' = Inr ''unitPrice''"
    "toCamel TochGo ''item'' = Inr ''item''"
    by (simp_all add: toCamel_eq ReplaceAll_space toCamel_loop.simps chars_def slice_def
        Replace_def byte_eval)
  obtain R T where e: "buildReader TochGo example_world ''data.csv'' ''csv'' 0 (CHR 0x22) True
       [] [''i'', ''f'', ''s''] [0, 0, 0, 0] [] ''t'' = (Inr R, T)"
    by (simp add: buildReader_def io_eval reader_eval world_eval byte_eval header_field_def
        reserved_def NewTableDef_def unknown_field_def t)
  from reserved_names_and_key [OF e] obtain rdr0 tr0 spec where
    i: "w_init example_world rdr0 = Inr spec" and
    g: "list_all (\<lambda>fd. ascii (Name fd)) (FieldDefs spec) \<longrightarrow>
        length (FieldDefs (TableSpec R)) = length (FieldDefs spec) \<and>
        (\<forall>i < length (FieldDefs spec). \<exists>name.
           (if True then toCamel TochGo (Name (FieldDefs spec ! i))
            else Inr (Name (FieldDefs spec ! i))) = Inr name \<and>
           fst (isIn TochGo name reserved (TochGo = TochGo)) = (ToLower name = ''index'') \<and>
           Name (FieldDefs (TableSpec R) ! i) =
             (if TochGo = TochGo then ToLower name else name)
               @ (if fst (isIn TochGo name reserved (TochGo = TochGo)) then ''1'' else [])) \<and>
        (FieldDefs spec \<noteq> [] \<longrightarrow>
           Key (TableSpec R) = Name (FieldDefs (TableSpec R) ! 0) \<and>
           Key (TableSpec R) \<in> set (map Name (FieldDefs (TableSpec R))))"
    by blast
  from i have fs: "FieldDefs spec =
      [unknown_field ''Index'', unknown_field ''Unit price'', unknown_field ''item'']"
    by (auto simp: example_world_def NewTableDef_def)
  have asc: "list_all (\<lambda>fd. ascii (Name fd))
       [unknown_field ''Index'', unknown_field ''Unit price'', unknown_field ''item'']"
    by (simp add: ascii_def unknown_field_def)
  have asc': "list_all (\<lambda>fd. ascii (Name fd)) (FieldDefs spec)"
    using asc by (simp add: fs)
  note G = g [THEN mp, OF asc']
  note nth = G [THEN conjunct2, THEN conjunct1, rule_format]
  have ne: "FieldDefs spec \<noteq> []" by (simp add: fs)
  from G have len: "length (FieldDefs (TableSpec R)) = 3" by (simp add: fs)
  from G ne have key: "Key (TableSpec R) = Name (FieldDefs (TableSpec R) ! 0)"
      "Key (TableSpec R) \<in> set (map Name (FieldDefs (TableSpec R)))"
    by blast+
  have n0: "Name (FieldDefs (TableSpec R) ! 0) = ''index1''"
  proof -
    have "0 < length (FieldDefs spec)" by (simp add: fs)
    from nth [OF this] obtain name where
      c: "(if True then toCamel TochGo (Name (FieldDefs spec ! 0))
            else Inr (Name (FieldDefs spec ! 0))) = Inr name" and
      d: "Name (FieldDefs (TableSpec R) ! 0) =
             (if TochGo = TochGo then ToLower name else name)
               @ (if fst (isIn TochGo name reserved (TochGo = TochGo)) then ''1'' else [])"
      by blast
    from c have "name = ''index''" by (simp add: fs unknown_field_def t)
    with d show ?thesis by (simp add: reserved_def byte_eval)
  qed
  have n1: "Name (FieldDefs (TableSpec R) ! 1) = ''unitprice''"
  proof -
    have "1 < length (FieldDefs spec)" by (simp add: fs)
    from nth [OF this] obtain name where
      c: "(if True then toCamel TochGo (Name (FieldDefs spec ! 1))
            else Inr (Name (FieldDefs spec ! 1))) = Inr name" and
      d: "Name (FieldDefs (TableSpec R) ! 1) =
             (if TochGo = TochGo then ToLower name else name)
               @ (if fst (isIn TochGo name reserved (TochGo = TochGo)) then ''1'' else [])"
      by blast
    from c have "name = ''unitPrice''" by (simp add: fs unknown_field_def t)
    with d show ?thesis by (simp add: reserved_def byte_eval)
  qed
  have n2: "Name (FieldDefs (TableSpec R) ! 2) = ''item''"
  proof -
    have "2 < length (FieldDefs spec)" by (simp add: fs)
    from nth [OF this] obtain name where
      c: "(if True then toCamel TochGo (Name (FieldDefs spec ! 2))
            else Inr (Name (FieldDefs spec ! 2))) = Inr name" and
      d: "Name (FieldDefs (TableSpec R) ! 2) =
             (if TochGo = TochGo then ToLower name else name)
               @ (if fst (isIn TochGo name reserved (TochGo = TochGo)) then ''1'' else [])"
      by blast
    from c have "name = ''item''" by (simp add: fs unknown_field_def t)
    with d show ?thesis by (simp add: reserved_def byte_eval)
  qed
  show ?thesis
    apply (rule exI [of _ R], rule exI [of _ T])
    using e asc len n0 n1 n2 key by simp
qed

subsection \<open>Where the body comes from\<close>



lemma then_io_events:
  "(\<forall>ev\<in>set (snd m). P ev) \<Longrightarrow> (\<And>a. \<forall>ev\<in>set (snd (f a)). P ev) \<Longrightarrow>
   \<forall>ev\<in>set (snd (then_io m f)). P ev"
  by (auto simp: then_io_def split: prod.splits sum.splits) (metis snd_conv)+

lemma if_events:
  "(c \<Longrightarrow> \<forall>ev\<in>set (snd a). P ev) \<Longrightarrow> (\<not> c \<Longrightarrow> \<forall>ev\<in>set (snd b). P ev) \<Longrightarrow>
   \<forall>ev\<in>set (snd (if c then a else b)). P ev"
  by simp

lemma call_events: "P ev \<Longrightarrow> \<forall>e\<in>set (snd (call ev res)). P e"
  by (simp add: call_def split: option.splits)

lemma call_val_events: "P ev \<Longrightarrow> \<forall>e\<in>set (snd (call_val ev res)). P e"
  by (simp add: call_val_def split: sum.splits)

lemma ret_events: "\<forall>e\<in>set (snd (ret a)). P e"
  by (simp add: ret_def)

lemma fail_events: "\<forall>e\<in>set (snd (fail x)). P e"
  by (simp add: fail_def)

lemma xl_reader_events: "\<forall>e\<in>set (snd (xl_reader xlr sheet xl quote skip)). P e"
  by (simp add: xl_reader_def ret_def fail_def)

lemmas events_intros = then_io_events if_events call_events call_val_events ret_events
  fail_events xl_reader_events


lemma newFile_events:
  "\<forall>ev\<in>set (snd (newFile rv w source sType quote skip xl xlSheet)). file_event ev"
  unfolding newFile_def Let_def
  by (intro events_intros) simp_all

lemma file_event_reader: "file_event ev \<Longrightarrow> reader_event ev"
  by (cases ev) simp_all


lemma newHttp_events:
  "\<forall>ev\<in>set (snd (newHttp rv w source sType quote skip xl xlSheet)). reader_event ev"
proof -
  have f: "\<forall>ev\<in>set (snd (newFile rv w name ''xls'' quote skip xl xlSheet)). reader_event ev" for name
    using newFile_events [of rv w name "''xls''" quote skip xl xlSheet]
    by (auto simp: file_event_reader)
  show ?thesis
    unfolding newHttp_def Let_def
    by (intro events_intros f) simp_all
qed

lemma NewReader_events:
  "\<forall>ev\<in>set (snd (NewReader rv w source sType quote skip xl xlSheet)). reader_event ev"
  using newHttp_events [of rv w source sType quote skip xl xlSheet]
    newFile_events [of rv w source sType quote skip xl xlSheet]
  by (auto simp: NewReader_def file_event_reader)





subsection \<open>Row errors in the export\<close>

lemma flags_Inr_ignore:
  assumes "flags rv sType camelOpt header field quoteOpt xlRows xlCols skip ignoreOpt = Inr fl"
  shows "f_ignore fl = (if rv = Part000 then Some (ToLower ignoreOpt = ''y'') else None)"
  using assms
  by (cases rv)
    (auto simp: flags_def Let_def
      split: prod.splits bool.splits sum.splits option.splits list.splits if_splits)

lemma write_batch_append_True:
  "write_batch wr True (xs @ ys) acc =
     (case write_batch wr True xs acc of Inl e \<Rightarrow> Inl e | Inr acc' \<Rightarrow> write_batch wr True ys acc')"
proof (induction xs arbitrary: acc)
  case Nil
  then show ?case by simp
next
  case (Cons x xs)
  obtain n k where acc: "acc = (n, k)" by (cases acc)
  show ?case unfolding acc by (cases "wr x") (simp_all add: Cons.IH)
qed

lemma write_batch_append_False:
  "write_batch wr False (xs @ ys) acc =
     (case write_batch wr False xs acc of Inl e \<Rightarrow> Inl e | Inr acc' \<Rightarrow> write_batch wr False ys acc')"
proof (induction xs arbitrary: acc)
  case Nil
  then show ?case by simp
next
  case (Cons x xs)
  obtain n k where acc: "acc = (n, k)" by (cases acc)
  show ?case unfolding acc by (cases "wr x") (simp_all add: Cons.IH)
qed

lemma write_batch_append:
  "write_batch wr tol (xs @ ys) acc =
     (case write_batch wr tol xs acc of Inl e \<Rightarrow> Inl e | Inr acc' \<Rightarrow> write_batch wr tol ys acc')"
  by (cases tol) (simp_all only: write_batch_append_True write_batch_append_False)

lemma write_batches_batches:
  "write_batches wr tol (batches n rows) acc = write_batch wr tol rows acc"
proof (induction n rows arbitrary: acc rule: batches.induct)
  case (1 n rows)
  show ?case
  proof (cases "n = 0 \<or> length rows \<le> n")
    case True
    then show ?thesis
      by (subst batches.simps) (simp split: sum.splits)
  next
    case False
    have "write_batch wr tol rows acc = write_batch wr tol (take n rows @ drop n rows) acc"
      by simp
    also have "\<dots> = (case write_batch wr tol (take n rows) acc of
        Inl e \<Rightarrow> Inl e | Inr acc' \<Rightarrow> write_batch wr tol (drop n rows) acc')"
      by (rule write_batch_append)
    finally show ?thesis
      using False by (subst batches.simps) (simp add: 1 split: sum.splits)
  qed
qed

lemma write_batch_strict:
  "\<exists>row\<in>set rows. wr row \<noteq> Written \<Longrightarrow> \<exists>e. write_batch wr False rows acc = Inl e"
proof (induction rows arbitrary: acc)
  case Nil
  then show ?case by simp
next
  case (Cons row rows)
  obtain n k where acc: "acc = (n, k)" by (cases acc)
  show ?case
  proof (cases "wr row")
    case Written
    with Cons.prems have "\<exists>row\<in>set rows. wr row \<noteq> Written" by auto
    from Cons.IH [OF this] Written show ?thesis by (simp add: acc)
  qed (simp_all add: acc)
qed

lemma write_batch_tolerant:
  "\<forall>row\<in>set rows. wr row \<noteq> ConnectionLost \<Longrightarrow>
   write_batch wr True rows (n, k) =
     Inr (n + length (filter (\<lambda>row. wr row = Written) rows),
          k + length (filter (\<lambda>row. wr row = RowRejected) rows))"
proof (induction rows arbitrary: n k)
  case Nil
  then show ?case by simp
next
  case (Cons row rows)
  then show ?case by (cases "wr row") simp_all
qed

lemma Export_strict:
  assumes "w_rows w rdr = Inr rows" "ignore \<noteq> Some True" "\<exists>row\<in>set rows. w_writeRow w row \<noteq> Written"
  shows "\<exists>e. Export w rdr after ignore = (Inl (Err e), [EvExport after ignore])"
proof -
  from assms(2) have f: "(ignore = Some True) = False" by simp
  obtain e where "write_batch (w_writeRow w) False rows (0, 0) = Inl e"
    using write_batch_strict [OF assms(3)] by blast
  then show ?thesis
    by (simp add: Export_def assms(1) f call_val_def then_io_def fail_def write_batches_batches)
qed

lemma Export_tolerant:
  assumes "w_rows w rdr = Inr rows" "\<forall>row\<in>set rows. w_writeRow w row \<noteq> ConnectionLost"
  shows "Export w rdr after (Some True) =
     (Inr (length (filter (\<lambda>row. w_writeRow w row = Written) rows),
           length (filter (\<lambda>row. w_writeRow w row = RowRejected) rows)),
      [EvExport after (Some True)])"
  using write_batch_tolerant [OF assms(2), of 0 0]
  by (simp add: Export_def assms(1) call_val_def then_io_def ret_def write_batches_batches)

lemma main_export:
  assumes "run_flags rv a = Inr fl"
    "w_connect w (a_host a) (a_user a) (a_password a) = None"
    "buildReader rv w (a_s a) (f_sType fl) (a_skip a) (f_quote fl) (f_camel fl) (f_headers fl)
       (f_fieldTypes fl) (f_xlArea fl) (a_sheet a) (a_table a) = (Inr rdr, trb)"
  shows "main rv w a =
     (case Export w rdr (if rv = TochGo then 0 else 1000) (f_ignore fl) of
        (Inl (Err e), tre) \<Rightarrow>
          (Fatal e, EvNewConnect (a_host a) (a_user a) (a_password a) # trb
                      @ EvNewWriter (a_table a) # tre)
      | (Inl (Panic p), tre) \<Rightarrow>
          (Crashed p, EvNewConnect (a_host a) (a_user a) (a_password a) # trb
                      @ EvNewWriter (a_table a) # tre @ [EvConClose])
      | (Inr (written, skipped), tre) \<Rightarrow>
          (Finished written skipped,
           EvNewConnect (a_host a) (a_user a) (a_password a) # trb
             @ EvNewWriter (a_table a) # tre @ [EvWtrClose, EvRdrClose, EvConClose]))"
  by (simp add: main_def assms then_io_def call_def split: prod.splits sum.splits error.splits)

lemma lower_byte_y: "lower_byte c = CHR ''y'' \<longleftrightarrow> c = CHR ''y'' \<or> c = CHR ''Y''"
  unfolding char_eq_code [of _ "CHR ''y''"] char_eq_code [of _ "CHR ''Y''"] of_char_lower_byte
  by auto

lemma ToLower_y: "ToLower s = ''y'' \<longleftrightarrow> s = ''y'' \<or> s = ''Y''"
  by (cases s) (auto simp: ToLower_def lower_byte_y)

text \<open>
  Claim C8. In the later revision the tolerance is set exactly when \<^verbatim>\<open>-i\<close> is \<open>y\<close> or \<open>Y\<close>
  (\<^verbatim>\<open>flags\<close> accepts nothing but these and \<open>n\<close> and \<open>N\<close>, the default), and \<^verbatim>\<open>main\<close> hands it
  to \<^verbatim>\<open>Export\<close> with the batch size 1000; \<^verbatim>\<open>toch.go\<close> has no such option and calls
  \<^verbatim>\<open>Export\<close> with the batch size 0 and no tolerance. When the flags are accepted, the
  connection is made, \<^verbatim>\<open>buildReader\<close> returns a reader and the rows are read: without
  tolerance, a row that the destination does not take ends the run in \<^verbatim>\<open>log.Fatalln\<close>, with
  status 1; with tolerance, and the connection kept, the run finishes, and the export has
  reported the number of rows written and the number of rows rejected and skipped. What
  \<^verbatim>\<open>Export\<close> does with the tolerance is the model of the specification above.
\<close>

theorem row_errors_fatal_unless_ignored:
  assumes "run_flags rv a = Inr fl"
    "w_connect w (a_host a) (a_user a) (a_password a) = None"
    "buildReader rv w (a_s a) (f_sType fl) (a_skip a) (f_quote fl) (f_camel fl) (f_headers fl)
       (f_fieldTypes fl) (f_xlArea fl) (a_sheet a) (a_table a) = (Inr rdr, trb)"
    "w_rows w rdr = Inr rows"
  shows "f_ignore fl = (if rv = Part000 then Some (a_i a = ''y'' \<or> a_i a = ''Y'') else None) \<and>
     EvExport (if rv = TochGo then 0 else 1000) (f_ignore fl) \<in> set (snd (main rv w a)) \<and>
     (f_ignore fl \<noteq> Some True \<and> (\<exists>row\<in>set rows. w_writeRow w row \<noteq> Written) \<longrightarrow>
        (\<exists>e. fst (main rv w a) = Fatal e) \<and> exit_status (fst (main rv w a)) = 1) \<and>
     (f_ignore fl = Some True \<and> (\<forall>row\<in>set rows. w_writeRow w row \<noteq> ConnectionLost) \<longrightarrow>
        fst (main rv w a) =
          Finished (length (filter (\<lambda>row. w_writeRow w row = Written) rows))
                   (length (filter (\<lambda>row. w_writeRow w row = RowRejected) rows)))"
proof -
  note m = main_export [OF assms(1-3)]
  have i: "f_ignore fl = (if rv = Part000 then Some (a_i a = ''y'' \<or> a_i a = ''Y'') else None)"
    using flags_Inr_ignore [OF assms(1) [unfolded run_flags_def]] by (simp add: ToLower_y)
  have ev: "EvExport (if rv = TochGo then 0 else 1000) (f_ignore fl) \<in> set (snd (main rv w a))"
    unfolding m
    by (simp add: Export_def assms(4) then_io_def call_val_def
        split: prod.splits sum.splits error.splits)
  have strict: "(\<exists>e. fst (main rv w a) = Fatal e) \<and> exit_status (fst (main rv w a)) = 1"
    if a1: "f_ignore fl \<noteq> Some True" and a2: "\<exists>row\<in>set rows. w_writeRow w row \<noteq> Written"
  proof -
    obtain e where "Export w rdr (if rv = TochGo then 0 else 1000) (f_ignore fl)
        = (Inl (Err e), [EvExport (if rv = TochGo then 0 else 1000) (f_ignore fl)])"
      using Export_strict [OF assms(4) a1 a2] by blast
    then show ?thesis unfolding m by simp
  qed
  have tolerant: "fst (main rv w a) =
          Finished (length (filter (\<lambda>row. w_writeRow w row = Written) rows))
                   (length (filter (\<lambda>row. w_writeRow w row = RowRejected) rows))"
    if "f_ignore fl = Some True" "\<forall>row\<in>set rows. w_writeRow w row \<noteq> ConnectionLost"
    unfolding m that(1) using Export_tolerant [OF assms(4) that(2)] by simp
  show ?thesis using i ev strict tolerant by blast
qed

theorem row_errors_fatal_unless_ignored_witness:
  "\<exists>fl rdr trb fl' rdr' trb'.
     run_flags Part000 (defaults\<lparr>a_type := ''csv'', a_s := ''data.csv'', a_table := ''t'',
        a_t := ''i,f,s''\<rparr>) = Inr fl \<and>
     buildReader Part000 rejecting_world ''data.csv'' (f_sType fl) 0 (f_quote fl) (f_camel fl)
       (f_headers fl) (f_fieldTypes fl) (f_xlArea fl) [] ''t'' = (Inr rdr, trb) \<and>
     w_rows rejecting_world rdr = Inr example_rows \<and>
     f_ignore fl = Some False \<and>
     w_connect rejecting_world ''127.0.0.1'' ''default'' [] = None \<and>
     w_writeRow rejecting_world [''3'', ''1.00'', ''bad''] = RowRejected \<and>
     fst (main Part000 rejecting_world (defaults\<lparr>a_type := ''csv'', a_s := ''data.csv'',
        a_table := ''t'', a_t := ''i,f,s''\<rparr>)) = Fatal ''export: row rejected by the destination'' \<and>
     run_flags Part000 (defaults\<lparr>a_type := ''csv'', a_s := ''data.csv'', a_table := ''t'',
        a_t := ''i,f,s'', a_i := ''Y''\<rparr>) = Inr fl' \<and>
     buildReader Part000 rejecting_world ''data.csv'' (f_sType fl') 0 (f_quote fl') (f_camel fl')
       (f_headers fl') (f_fieldTypes fl') (f_xlArea fl') [] ''t'' = (Inr rdr', trb') \<and>
     f_ignore fl' = Some True \<and>
     fst (main Part000 rejecting_world (defaults\<lparr>a_type := ''csv'', a_s := ''data.csv'',
        a_table := ''t'', a_t := ''i,f,s'', a_i := ''Y''\<rparr>)) = Finished 2 1"
proof -
  let ?N = "defaults\<lparr>a_type := ''csv'', a_s := ''data.csv'', a_table := ''t'', a_t := ''i,f,s''\<rparr>"
  let ?Y = "defaults\<lparr>a_type := ''csv'', a_s := ''data.csv'', a_table := ''t'', a_t := ''i,f,s'',
     a_i := ''Y''\<rparr>"
  let ?fl = "\<lambda>ig. \<lparr>f_sType = ''csv'', f_headers = [], f_fieldTypes = [''i'', ''f'', ''s''],
     f_camel = False, f_ignore = Some ig, f_quote = CHR 0x22, f_xlArea = [0, 0, 0, 0]\<rparr>"
  have fN: "run_flags Part000 ?N = Inr (?fl False)" by (simp add: flag_eval)
  have fY: "run_flags Part000 ?Y = Inr (?fl True)" by (simp add: flag_eval)
  obtain R T where b: "buildReader Part000 rejecting_world ''data.csv'' ''csv'' 0 (CHR 0x22) False
      [] [''i'', ''f'', ''s''] [0, 0, 0, 0] [] ''t'' = (Inr R, T)"
    by (simp add: build_eval)
  have c: "w_connect rejecting_world h u p = None" for h u p by (simp add: world_eval)
  have r: "w_rows rejecting_world R = Inr example_rows" by (simp add: world_eval)
  have bad: "\<exists>row\<in>set example_rows. w_writeRow rejecting_world row \<noteq> Written"
    by (simp add: world_eval)
  have lost: "\<forall>row\<in>set example_rows. w_writeRow rejecting_world row \<noteq> ConnectionLost"
    by (simp add: world_eval)
  have cnt: "length (filter (\<lambda>row. w_writeRow rejecting_world row = Written) example_rows) = 2"
    "length (filter (\<lambda>row. w_writeRow rejecting_world row = RowRejected) example_rows) = 1"
    by (simp_all add: world_eval)
  have bN: "buildReader Part000 rejecting_world (a_s ?N) (f_sType (?fl False)) (a_skip ?N)
      (f_quote (?fl False)) (f_camel (?fl False)) (f_headers (?fl False))
      (f_fieldTypes (?fl False)) (f_xlArea (?fl False)) (a_sheet ?N) (a_table ?N) = (Inr R, T)"
    using b by (simp add: defaults_def)
  have bY: "buildReader Part000 rejecting_world (a_s ?Y) (f_sType (?fl True)) (a_skip ?Y)
      (f_quote (?fl True)) (f_camel (?fl True)) (f_headers (?fl True))
      (f_fieldTypes (?fl True)) (f_xlArea (?fl True)) (a_sheet ?Y) (a_table ?Y) = (Inr R, T)"
    using b by (simp add: defaults_def)
  from row_errors_fatal_unless_ignored [OF fN c bN r] bad
  have "\<exists>e. fst (main Part000 rejecting_world ?N) = Fatal e" by simp
  moreover have ex: "Export rejecting_world R 1000 (Some False)
      = (Inl (Err ''export: row rejected by the destination''), [EvExport 1000 (Some False)])"
    by (simp add: Export_def then_io_def call_val_def fail_def write_batches_batches world_eval)
  have "fst (main Part000 rejecting_world ?N) = Fatal e \<Longrightarrow>
      e = ''export: row rejected by the destination''" for e
    by (simp add: main_export [OF fN c bN] ex)
  ultimately have N: "fst (main Part000 rejecting_world ?N)
      = Fatal ''export: row rejected by the destination''" by auto
  from row_errors_fatal_unless_ignored [OF fY c bY r] lost cnt
  have Y: "fst (main Part000 rejecting_world ?Y) = Finished 2 1" by simp
  have wr: "w_writeRow rejecting_world [''3'', ''1.00'', ''bad''] = RowRejected"
    by (simp add: world_eval)
  show ?thesis
    apply (rule exI [of _ "?fl False"], rule exI [of _ R], rule exI [of _ T])
    apply (rule exI [of _ "?fl True"], rule exI [of _ R], rule exI [of _ T])
    using fN fY b r N Y c wr by simp
qed

subsection \<open>Inferred field types\<close>

lemma meets_percent:
  "meets p cells (95 / 100) \<longleftrightarrow>
     nonempty_cells cells \<noteq> [] \<and>
     95 * length (nonempty_cells cells) \<le> 100 * length (parsed_cells p cells)"
proof (cases "nonempty_cells cells = []")
  case True
  then show ?thesis by (simp add: meets_def)
next
  case False
  then have pos: "0 < real (length (nonempty_cells cells))" by simp
  have "(95 / 100 \<le> real (length (parsed_cells p cells)) / real (length (nonempty_cells cells)))
      \<longleftrightarrow> (95 / 100 * real (length (nonempty_cells cells)) \<le> real (length (parsed_cells p cells)))"
    using pos by (rule pos_le_divide_eq)
  also have "\<dots> \<longleftrightarrow> real (95 * length (nonempty_cells cells)) \<le> real (100 * length (parsed_cells p cells))"
    by (simp add: mult.commute)
  also have "\<dots> \<longleftrightarrow> 95 * length (nonempty_cells cells) \<le> 100 * length (parsed_cells p cells)"
    by (rule of_nat_le_iff)
  finally show ?thesis using False by (simp add: meets_def)
qed

lemma impute_column:
  assumes "b = impute_type parses cells (95 / 100)"
  shows "b \<in> {ChDate, ChInt, ChFloat, ChString} \<and>
     (b \<noteq> ChString \<longrightarrow>
        nonempty_cells cells \<noteq> [] \<and>
        95 * length (nonempty_cells cells) \<le> 100 * length (parsed_cells (parses b) cells)) \<and>
     (b = ChString \<longrightarrow>
        \<not> meets (parses ChDate) cells (95 / 100) \<and> \<not> meets (parses ChInt) cells (95 / 100) \<and>
        \<not> meets (parses ChFloat) cells (95 / 100))"
proof -
  have 1: "b \<in> {ChDate, ChInt, ChFloat, ChString}"
    unfolding assms by (simp add: impute_type_def)
  have 2: "meets (parses b) cells (95 / 100)" if "b \<noteq> ChString"
    using that unfolding assms by (simp add: impute_type_def split: if_splits)
  have 3: "\<not> meets (parses ChDate) cells (95 / 100) \<and> \<not> meets (parses ChInt) cells (95 / 100) \<and>
        \<not> meets (parses ChFloat) cells (95 / 100)" if "b = ChString"
    using that unfolding assms by (simp add: impute_type_def split: if_splits)
  have 4: "nonempty_cells cells \<noteq> [] \<and>
        95 * length (nonempty_cells cells) \<le> 100 * length (parsed_cells (parses b) cells)"
    if "b \<noteq> ChString"
    by (rule meets_percent [THEN iffD1, OF 2 [OF that]])
  show ?thesis using 1 3 4 by blast
qed

lemma impute_fields_Base:
  "i < length fds \<Longrightarrow>
   Base (ChSpec (impute_fields parses rows tol fds ! i)) = impute_type parses (column i rows) tol"
  by (simp add: impute_fields_def)

text \<open>
  Claim C2. When no field types are supplied and \<^verbatim>\<open>buildReader\<close> returns a reader, it has
  called \<^verbatim>\<open>Impute\<close> on the reader, with 0 rows to examine (all of them) and the tolerance
  0.95, and with nothing else. The base type of each field of the schema is then Date, Int,
  Float or String; it is one of the first three only if the column has cells that are not
  empty and at least 95 in 100 of them parse under that type, and it is String only if none
  of the three types reaches that share. What \<^verbatim>\<open>Impute\<close> does with the tolerance is the
  model of the specification above.
\<close>

theorem inferred_types_threshold:
  assumes "buildReader rv w source sType skip quote camel headers [] xl xlSheet table
             = (Inr rdr, tr)"
  shows "EvImpute 0 (95 / 100) \<in> set tr \<and>
     (\<forall>n tol. EvImpute n tol \<in> set tr \<longrightarrow> n = 0 \<and> tol = 95 / 100) \<and>
     (\<exists>rdr' rows. Built rdr' = Built rdr \<and> w_rows w rdr' = Inr rows \<and>
        (\<forall>i < length (FieldDefs (TableSpec rdr)).
           Base (ChSpec (FieldDefs (TableSpec rdr) ! i)) \<in> {ChDate, ChInt, ChFloat, ChString} \<and>
           (Base (ChSpec (FieldDefs (TableSpec rdr) ! i)) \<noteq> ChString \<longrightarrow>
              nonempty_cells (column i rows) \<noteq> [] \<and>
              95 * length (nonempty_cells (column i rows))
                \<le> 100 * length (parsed_cells
                     (w_parses w (Base (ChSpec (FieldDefs (TableSpec rdr) ! i)))) (column i rows))) \<and>
           (Base (ChSpec (FieldDefs (TableSpec rdr) ! i)) = ChString \<longrightarrow>
              \<not> meets (w_parses w ChDate) (column i rows) (95 / 100) \<and>
              \<not> meets (w_parses w ChInt) (column i rows) (95 / 100) \<and>
              \<not> meets (w_parses w ChFloat) (column i rows) (95 / 100))))"
proof -
  from assms obtain rdr0 tr0 spec1 tr1 tr2 where
    n: "NewReader rv w source sType quote (if headers = [] then skip + 1 else skip) xl xlSheet
       = (Inr rdr0, tr0)" and
    h1: "headers = [] \<Longrightarrow> tr1 = [EvInit]" and
    h2: "headers \<noteq> [] \<Longrightarrow> tr1 = []" and
    t: "\<exists>rows. w_rows w (rdr0\<lparr>TableSpec := spec1\<rparr>) = Inr rows \<and>
       TableSpec rdr = spec1\<lparr>FieldDefs := impute_fields (w_parses w) rows (95 / 100) (FieldDefs spec1)\<rparr> \<and>
       tr2 = [EvImpute 0 (95 / 100)]" and
    b: "Built rdr = Built rdr0" and
    tr: "tr = tr0 @ tr1 @ tr2 @ [EvCreateTable table]"
    by (rule buildReader_Inr) blast
  from t obtain rows where
    rows: "w_rows w (rdr0\<lparr>TableSpec := spec1\<rparr>) = Inr rows" and
    fds: "FieldDefs (TableSpec rdr) = impute_fields (w_parses w) rows (95 / 100) (FieldDefs spec1)" and
    tr2: "tr2 = [EvImpute 0 (95 / 100)]"
    by auto
  have tr1: "tr1 = [EvInit] \<or> tr1 = []" using h1 h2 by blast
  have tr0: "\<forall>ev\<in>set tr0. reader_event ev"
    using NewReader_events [of rv w source sType quote "if headers = [] then skip + 1 else skip" xl xlSheet]
    by (simp add: n)
  have only: "n = 0 \<and> tol = 95 / 100" if "EvImpute n tol \<in> set tr" for n tol
  proof -
    have "EvImpute n tol \<notin> set tr0" using tr0 by fastforce
    with that tr1 show ?thesis by (auto simp: tr tr2)
  qed
  have col: "Base (ChSpec (FieldDefs (TableSpec rdr) ! i)) = impute_type (w_parses w) (column i rows) (95 / 100)"
    if "i < length (FieldDefs (TableSpec rdr))" for i
    using that by (simp add: fds impute_fields_length impute_fields_Base)
  have bl: "Built (rdr0\<lparr>TableSpec := spec1\<rparr>) = Built rdr" using b by simp
  have cols: "\<forall>i < length (FieldDefs (TableSpec rdr)).
           Base (ChSpec (FieldDefs (TableSpec rdr) ! i)) \<in> {ChDate, ChInt, ChFloat, ChString} \<and>
           (Base (ChSpec (FieldDefs (TableSpec rdr) ! i)) \<noteq> ChString \<longrightarrow>
              nonempty_cells (column i rows) \<noteq> [] \<and>
              95 * length (nonempty_cells (column i rows))
                \<le> 100 * length (parsed_cells
                     (w_parses w (Base (ChSpec (FieldDefs (TableSpec rdr) ! i)))) (column i rows))) \<and>
           (Base (ChSpec (FieldDefs (TableSpec rdr) ! i)) = ChString \<longrightarrow>
              \<not> meets (w_parses w ChDate) (column i rows) (95 / 100) \<and>
              \<not> meets (w_parses w ChInt) (column i rows) (95 / 100) \<and>
              \<not> meets (w_parses w ChFloat) (column i rows) (95 / 100))"
  proof (intro allI impI)
    fix i assume "i < length (FieldDefs (TableSpec rdr))"
    from impute_column [OF col [OF this]] show
      "Base (ChSpec (FieldDefs (TableSpec rdr) ! i)) \<in> {ChDate, ChInt, ChFloat, ChString} \<and>
           (Base (ChSpec (FieldDefs (TableSpec rdr) ! i)) \<noteq> ChString \<longrightarrow>
              nonempty_cells (column i rows) \<noteq> [] \<and>
              95 * length (nonempty_cells (column i rows))
                \<le> 100 * length (parsed_cells
                     (w_parses w (Base (ChSpec (FieldDefs (TableSpec rdr) ! i)))) (column i rows))) \<and>
           (Base (ChSpec (FieldDefs (TableSpec rdr) ! i)) = ChString \<longrightarrow>
              \<not> meets (w_parses w ChDate) (column i rows) (95 / 100) \<and>
              \<not> meets (w_parses w ChInt) (column i rows) (95 / 100) \<and>
              \<not> meets (w_parses w ChFloat) (column i rows) (95 / 100))" .
  qed
  have ev: "EvImpute 0 (95 / 100) \<in> set tr" by (simp add: tr tr2)
  from bl rows cols have "\<exists>rdr' rows. Built rdr' = Built rdr \<and> w_rows w rdr' = Inr rows \<and>
        (\<forall>i < length (FieldDefs (TableSpec rdr)).
           Base (ChSpec (FieldDefs (TableSpec rdr) ! i)) \<in> {ChDate, ChInt, ChFloat, ChString} \<and>
           (Base (ChSpec (FieldDefs (TableSpec rdr) ! i)) \<noteq> ChString \<longrightarrow>
              nonempty_cells (column i rows) \<noteq> [] \<and>
              95 * length (nonempty_cells (column i rows))
                \<le> 100 * length (parsed_cells
                     (w_parses w (Base (ChSpec (FieldDefs (TableSpec rdr) ! i)))) (column i rows))) \<and>
           (Base (ChSpec (FieldDefs (TableSpec rdr) ! i)) = ChString \<longrightarrow>
              \<not> meets (w_parses w ChDate) (column i rows) (95 / 100) \<and>
              \<not> meets (w_parses w ChInt) (column i rows) (95 / 100) \<and>
              \<not> meets (w_parses w ChFloat) (column i rows) (95 / 100)))"
    by (intro exI conjI)
  with ev only show ?thesis by (intro conjI allI impI) blast+
qed

theorem inferred_types_threshold_witness:
  "\<exists>rdr tr.
     buildReader TochGo example_world ''data.csv'' ''csv'' 0 (CHR 0x22) False [] [] [0, 0, 0, 0]
       [] ''t'' = (Inr rdr, tr) \<and>
     EvImpute 0 (95 / 100) \<in> set tr \<and>
     map (\<lambda>fd. Base (ChSpec fd)) (FieldDefs (TableSpec rdr)) = [ChInt, ChFloat, ChString] \<and>
     (0 :: nat) < length (FieldDefs (TableSpec rdr)) \<and>
     Base (ChSpec (FieldDefs (TableSpec rdr) ! 0)) \<noteq> ChString \<and>
     95 * length (nonempty_cells (column 0 example_rows))
       \<le> 100 * length (parsed_cells (example_parses ChInt) (column 0 example_rows)) \<and>
     (2 :: nat) < length (FieldDefs (TableSpec rdr)) \<and>
     Base (ChSpec (FieldDefs (TableSpec rdr) ! 2)) = ChString \<and>
     \<not> meets (example_parses ChInt) (column 2 example_rows) (95 / 100)"
proof -
  obtain R T where e: "buildReader TochGo example_world ''data.csv'' ''csv'' 0 (CHR 0x22) False
      [] [] [0, 0, 0, 0] [] ''t'' = (Inr R, T)"
    and b: "map (\<lambda>fd. Base (ChSpec fd)) (FieldDefs (TableSpec R)) = [ChInt, ChFloat, ChString]"
    by (simp add: build_eval impute_eval digit_val_def)
  note t = inferred_types_threshold [OF e]
  from t have ev: "EvImpute 0 (95 / 100) \<in> set T" by (rule conjunct1)
  from t [THEN conjunct2, THEN conjunct2] obtain rdr' rows where
    r: "w_rows example_world rdr' = Inr rows" and
    cols: "\<forall>i < length (FieldDefs (TableSpec R)).
           Base (ChSpec (FieldDefs (TableSpec R) ! i)) \<in> {ChDate, ChInt, ChFloat, ChString} \<and>
           (Base (ChSpec (FieldDefs (TableSpec R) ! i)) \<noteq> ChString \<longrightarrow>
              nonempty_cells (column i rows) \<noteq> [] \<and>
              95 * length (nonempty_cells (column i rows))
                \<le> 100 * length (parsed_cells
                     (w_parses example_world (Base (ChSpec (FieldDefs (TableSpec R) ! i))))
                     (column i rows))) \<and>
           (Base (ChSpec (FieldDefs (TableSpec R) ! i)) = ChString \<longrightarrow>
              \<not> meets (w_parses example_world ChDate) (column i rows) (95 / 100) \<and>
              \<not> meets (w_parses example_world ChInt) (column i rows) (95 / 100) \<and>
              \<not> meets (w_parses example_world ChFloat) (column i rows) (95 / 100))"
    by blast
  from r have rows: "rows = example_rows" by (simp add: example_world_def)
  have p: "w_parses example_world = example_parses" by (simp add: example_world_def)
  from b have len: "length (FieldDefs (TableSpec R)) = 3"
    by (auto dest: arg_cong [of _ _ length])
  have b0: "Base (ChSpec (FieldDefs (TableSpec R) ! 0)) = ChInt"
    using arg_cong [OF b, of "\<lambda>xs. xs ! 0"] len by simp
  have b2: "Base (ChSpec (FieldDefs (TableSpec R) ! 2)) = ChString"
    using arg_cong [OF b, of "\<lambda>xs. xs ! 2"] len by simp
  have l0: "0 < length (FieldDefs (TableSpec R))" and l2: "2 < length (FieldDefs (TableSpec R))"
    using len by simp_all
  from cols [rule_format, OF l0] b0
  have c0: "95 * length (nonempty_cells (column 0 example_rows))
       \<le> 100 * length (parsed_cells (example_parses ChInt) (column 0 example_rows))"
    by (simp add: rows p)
  from cols [rule_format, OF l2] b2
  have c2: "\<not> meets (example_parses ChInt) (column 2 example_rows) (95 / 100)"
    by (simp add: rows p)
  show ?thesis
    apply (rule exI [of _ R], rule exI [of _ T])
    using e ev b l0 l2 b0 b2 c0 c2 by simp
qed

end
